theory Spec2Isabelle
  imports Main "HOL-Library.Word"
begin

section \<open>Data model\<close>

text \<open>
  Mongoose documents are modelled as records typed by their schemas. An ObjectId is a
  natural number, a Date is an integer (milliseconds), a String field that may be
  missing is a \<open>string option\<close> (\<open>None\<close> for null/undefined). A collection is the list
  of its documents in insertion order.
\<close>

type_synonym oid = nat
type_synonym date = int

text \<open>
  A JavaScript value, as far as JSON has one. An object is the list of its
  own properties; a property is looked up with \<open>map_of\<close>.
\<close>

datatype jsval =
    JNull
  | JBool bool
  | JNum int
  | JStr string
  | JArr "jsval list"
  | JObj "(string \<times> jsval) list"

type_synonym jsobj = "(string \<times> jsval) list"

text \<open>models/CharityCode.js: charityCodeSchema.\<close>

record charity_code =
  cc_id :: oid
  code :: string
  expiresAt :: date
  isUsed :: bool
  usedBy :: "(oid \<times> date) option"
  createdBy :: oid
  description :: "string option"
  isActive :: bool

text \<open>models/User.js: userSchema. \<open>charityAuthorization\<close> is a nested path: it always
  exists on a document, with \<open>canCreateCharity\<close> defaulting to false.\<close>

datatype account_type = Individual | Charity | Admin

record charity_authorization =
  auth_code :: "oid option"
  authorizedAt :: "date option"
  canCreateCharity :: bool

record user =
  u_id :: oid
  email :: string
  password :: string
  accountType :: account_type
  charityAuthorization :: charity_authorization
  personalInfo :: jsobj
  profile :: jsobj
  refreshTokens :: "string list"
  lastLogin :: "date option"
  u_isActive :: bool
  emailVerified :: bool
  verificationToken :: "string option"
  createdAt :: date
  updatedAt :: date

section \<open>GET /charity-codes/stats\<close>

text \<open>\<open>countDocuments(query)\<close>: the number of documents of the collection that match.\<close>

definition countDocuments :: "('d \<Rightarrow> bool) \<Rightarrow> 'd list \<Rightarrow> nat" where
  "countDocuments q coll = length (filter q coll)"

record stats =
  stats_total :: nat
  stats_active :: nat
  stats_expired :: nat
  stats_used :: nat
  stats_unused :: nat

text \<open>The handler reads the clock once (\<open>now\<close>) and issues the five counts.\<close>

definition charity_codes_stats :: "date \<Rightarrow> charity_code list \<Rightarrow> stats" where
  "charity_codes_stats now coll =
     \<lparr> stats_total = countDocuments (\<lambda>c. True) coll,
       stats_active = countDocuments (\<lambda>c. isActive c = True \<and> expiresAt c > now \<and> isUsed c = False) coll,
       stats_expired = countDocuments (\<lambda>c. expiresAt c \<le> now) coll,
       stats_used = countDocuments (\<lambda>c. isUsed c = True) coll,
       stats_unused = countDocuments (\<lambda>c. isUsed c = False) coll \<rparr>"

section \<open>User.toJSON\<close>

text \<open>\<open>delete obj.key\<close> removes every own property of that name.\<close>

definition js_delete :: "string \<Rightarrow> jsobj \<Rightarrow> jsobj" where
  "js_delete k obj = filter (\<lambda>p. fst p \<noteq> k) obj"

definition account_type_name :: "account_type \<Rightarrow> string" where
  "account_type_name a = (case a of Individual \<Rightarrow> ''individual'' | Charity \<Rightarrow> ''charity'' | Admin \<Rightarrow> ''admin'')"

text \<open>A path that is not set, or an empty nested object, gives no property.\<close>

definition opt_prop :: "string \<Rightarrow> ('a \<Rightarrow> jsval) \<Rightarrow> 'a option \<Rightarrow> jsobj" where
  "opt_prop k f v = (case v of None \<Rightarrow> [] | Some x \<Rightarrow> [(k, f x)])"

definition obj_prop :: "string \<Rightarrow> jsobj \<Rightarrow> jsobj" where
  "obj_prop k obj = (if obj = [] then [] else [(k, JObj obj)])"

text \<open>\<open>this.toObject()\<close> on a user document: one property per schema path that is set.\<close>

definition toObject :: "user \<Rightarrow> jsobj" where
  "toObject u =
     [ (''_id'', JNum (int (u_id u))),
       (''email'', JStr (email u)),
       (''password'', JStr (password u)),
       (''accountType'', JStr (account_type_name (accountType u))),
       (''charityAuthorization'',
          JObj (opt_prop ''code'' (\<lambda>c. JNum (int c)) (auth_code (charityAuthorization u))
                @ opt_prop ''authorizedAt'' JNum (authorizedAt (charityAuthorization u))
                @ [(''canCreateCharity'', JBool (canCreateCharity (charityAuthorization u)))])) ]
     @ obj_prop ''personalInfo'' (personalInfo u)
     @ obj_prop ''profile'' (profile u)
     @ [ (''refreshTokens'', JArr (map JStr (refreshTokens u))) ]
     @ opt_prop ''lastLogin'' JNum (lastLogin u)
     @ [ (''isActive'', JBool (u_isActive u)),
         (''emailVerified'', JBool (emailVerified u)) ]
     @ opt_prop ''verificationToken'' JStr (verificationToken u)
     @ [ (''createdAt'', JNum (createdAt u)),
         (''updatedAt'', JNum (updatedAt u)) ]"

text \<open>userSchema.methods.toJSON, on the object that \<open>toObject\<close> returned.\<close>

definition strip_sensitive :: "jsobj \<Rightarrow> jsobj" where
  "strip_sensitive obj =
     js_delete ''verificationToken'' (js_delete ''refreshTokens'' (js_delete ''password'' obj))"

definition toJSON :: "user \<Rightarrow> jsobj" where
  "toJSON u = strip_sensitive (toObject u)"

section \<open>The stores\<close>

text \<open>models/Charity.js, as far as the admin user routes read it: the owner.\<close>

record charity_ref =
  ch_id :: oid
  owner :: oid

record db =
  codes :: "charity_code list"
  users :: "user list"
  charities :: "charity_ref list"

text \<open>\<open>Model.findById(id)\<close>.\<close>

definition findUserById :: "oid \<Rightarrow> user list \<Rightarrow> user option" where
  "findUserById i coll = find (\<lambda>u. u_id u = i) coll"

definition findCodeById :: "oid \<Rightarrow> charity_code list \<Rightarrow> charity_code option" where
  "findCodeById i coll = find (\<lambda>c. cc_id c = i) coll"

text \<open>
  \<open>updateOne(filter, update)\<close>: the first document that matches is updated; \<open>None\<close>
  when no document matches. \<open>deleteOne(filter)\<close> removes the first document that matches,
  \<open>deleteMany(filter)\<close> all of them.
\<close>

fun updateOne :: "('d \<Rightarrow> bool) \<Rightarrow> ('d \<Rightarrow> 'd) \<Rightarrow> 'd list \<Rightarrow> 'd list option" where
  "updateOne q f [] = None"
| "updateOne q f (d # ds) =
     (if q d then Some (f d # ds) else map_option ((#) d) (updateOne q f ds))"

fun deleteOne :: "('d \<Rightarrow> bool) \<Rightarrow> 'd list \<Rightarrow> 'd list" where
  "deleteOne q [] = []"
| "deleteOne q (d # ds) = (if q d then ds else d # deleteOne q ds)"

definition deleteMany :: "('d \<Rightarrow> bool) \<Rightarrow> 'd list \<Rightarrow> 'd list" where
  "deleteMany q coll = filter (\<lambda>d. \<not> q d) coll"

text \<open>
  \<open>doc.save()\<close> on a document that was loaded from the store: Mongoose sends an update,
  selected by \<open>_id\<close>, that sets the paths modified on the in-memory document, and
  rejects (\<open>None\<close>) when no stored document has that \<open>_id\<close>. The stored values of the
  other paths are not read and not written.
\<close>

definition save_code_use :: "charity_code \<Rightarrow> charity_code list \<Rightarrow> charity_code list option" where
  "save_code_use doc coll =
     updateOne (\<lambda>d. cc_id d = cc_id doc) (\<lambda>d. d\<lparr> usedBy := usedBy doc, isUsed := isUsed doc \<rparr>) coll"

definition save_code_active :: "charity_code \<Rightarrow> charity_code list \<Rightarrow> charity_code list option" where
  "save_code_active doc coll =
     updateOne (\<lambda>d. cc_id d = cc_id doc) (\<lambda>d. d\<lparr> isActive := isActive doc \<rparr>) coll"

definition save_user_authorization :: "user \<Rightarrow> user list \<Rightarrow> user list option" where
  "save_user_authorization doc coll =
     updateOne (\<lambda>d. u_id d = u_id doc)
       (\<lambda>d. d\<lparr> charityAuthorization := charityAuthorization doc \<rparr>) coll"

section \<open>models/CharityCode.js: the document methods\<close>

text \<open>\<open>isValidForUse\<close>; \<open>now\<close> is the value of the \<open>new Date()\<close> it reads.\<close>

definition isValidForUse :: "date \<Rightarrow> charity_code \<Rightarrow> bool" where
  "isValidForUse now c = (isActive c \<and> now < expiresAt c \<and> \<not> isUsed c)"

text \<open>
  \<open>useCode\<close> up to its \<open>this.save()\<close>: throws (\<open>None\<close>) when the in-memory document is not
  valid for use, else marks the in-memory document used. \<open>now\<close> is the clock read by
  \<open>isValidForUse\<close>, \<open>usedAt\<close> the one stored.
\<close>

definition useCode :: "date \<Rightarrow> date \<Rightarrow> oid \<Rightarrow> charity_code \<Rightarrow> charity_code option" where
  "useCode now usedAt userId c =
     (if \<not> isValidForUse now c then None
      else Some (c\<lparr> usedBy := Some (userId, usedAt), isUsed := True \<rparr>))"

section \<open>POST /verify-charity-code\<close>

text \<open>ASCII character classes of the validation schema, and \<open>toUpperCase\<close>.\<close>

definition alphanum :: "char \<Rightarrow> bool" where
  "alphanum c = (c \<in> set ''abcdefghijklmnopqrstuvwxyzABCDEFGHIJKLMNOPQRSTUVWXYZ0123456789'')"

definition toUpperChar :: "char \<Rightarrow> char" where
  "toUpperChar c =
     (case map_of (zip ''abcdefghijklmnopqrstuvwxyz'' ''ABCDEFGHIJKLMNOPQRSTUVWXYZ'') c of
        Some u \<Rightarrow> u | None \<Rightarrow> c)"

definition toUpperCase :: "string \<Rightarrow> string" where
  "toUpperCase s = map toUpperChar s"

text \<open>
  \<open>verifyCharityCodeSchema.validate(req.body)\<close> on a parsed JSON object: no property other
  than \<open>code\<close> is allowed, \<open>code\<close> is required, a string of exactly 8 alphanumeric
  characters, and is converted to upper case. \<open>None\<close> is a validation error.
\<close>

definition verifyCharityCodeSchema :: "jsobj \<Rightarrow> string option" where
  "verifyCharityCodeSchema body =
     (if list_ex (\<lambda>p. fst p \<noteq> ''code'') body then None
      else case map_of body ''code'' of
             Some (JStr s) \<Rightarrow> if length s = 8 \<and> list_all alphanum s then Some (toUpperCase s) else None
           | _ \<Rightarrow> None)"

text \<open>
  The responses of the route: 400 with the schema's message, 400 "You already have charity
  creation authorization", 404 "Invalid charity code", 400 with one of the four reasons
  ("Code is not valid", "Code has expired", "Code has already been used", "Code is
  inactive"), 200 with the time of authorization, and 500 from the catch block.
\<close>

datatype redeem_result =
    ValidationError
  | AlreadyGranted
  | NotFound
  | NotValid
  | Expired
  | AlreadyUsed
  | Inactive
  | Verified "date option"
  | Failed

text \<open>
  The handler is an async function: it runs without interruption between two \<open>await\<close>s,
  and other requests run while it waits. Its state names the operation it waits for,
  with the documents it holds in memory.
\<close>

datatype req_state =
    AwaitFindCode string
  | AwaitSaveCode charity_code
  | AwaitFindUser charity_code
  | AwaitSaveUser user
  | Done redeem_result

text \<open>The values of the handler's successive \<open>new Date()\<close> reads.\<close>

record clock =
  t_valid :: date
  t_reason :: date
  t_use :: date
  t_usedAt :: date
  t_authorized :: date

text \<open>
  From the start of the handler to its first \<open>await\<close>; \<open>req_user\<close> is the document
  the \<open>auth\<close> middleware loaded. \<open>begin_redeem\<close> is the part after the validation of
  the body, on the validated code.
\<close>

definition begin_redeem :: "user \<Rightarrow> string \<Rightarrow> req_state" where
  "begin_redeem req_user c =
     (if canCreateCharity (charityAuthorization req_user) then Done AlreadyGranted
      else AwaitFindCode (toUpperCase c))"

definition begin_verify :: "user \<Rightarrow> jsobj \<Rightarrow> req_state" where
  "begin_verify req_user body =
     (case verifyCharityCodeSchema body of
        None \<Rightarrow> Done ValidationError
      | Some c \<Rightarrow> begin_redeem req_user c)"

text \<open>The reason reported when \<open>isValidForUse\<close> was false.\<close>

definition invalid_reason :: "date \<Rightarrow> charity_code \<Rightarrow> redeem_result" where
  "invalid_reason now c =
     (if now \<ge> expiresAt c then Expired
      else if isUsed c then AlreadyUsed
      else if \<not> isActive c then Inactive
      else NotValid)"

text \<open>
  The awaited store operation takes place, and the handler runs on to its next \<open>await\<close>
  or to its response. A rejected promise or a thrown error reaches the catch block.
\<close>

fun resume_verify :: "clock \<Rightarrow> user \<Rightarrow> req_state \<Rightarrow> db \<Rightarrow> req_state \<times> db" where
  "resume_verify clk req_user (AwaitFindCode c) s =
     (case find (\<lambda>d. code d = c \<and> isActive d = True) (codes s) of
        None \<Rightarrow> (Done NotFound, s)
      | Some charityCode \<Rightarrow>
          if \<not> isValidForUse (t_valid clk) charityCode
          then (Done (invalid_reason (t_reason clk) charityCode), s)
          else (case useCode (t_use clk) (t_usedAt clk) (u_id req_user) charityCode of
                  None \<Rightarrow> (Done Failed, s)
                | Some used \<Rightarrow> (AwaitSaveCode used, s)))"
| "resume_verify clk req_user (AwaitSaveCode charityCode) s =
     (case save_code_use charityCode (codes s) of
        None \<Rightarrow> (Done Failed, s)
      | Some coll \<Rightarrow> (AwaitFindUser charityCode, s\<lparr> codes := coll \<rparr>))"
| "resume_verify clk req_user (AwaitFindUser charityCode) s =
     (case findUserById (u_id req_user) (users s) of
        None \<Rightarrow> (Done Failed, s)
      | Some u \<Rightarrow>
          (AwaitSaveUser (u\<lparr> charityAuthorization :=
              \<lparr> auth_code = Some (cc_id charityCode),
                authorizedAt = Some (t_authorized clk),
                canCreateCharity = True \<rparr> \<rparr>), s))"
| "resume_verify clk req_user (AwaitSaveUser u) s =
     (case save_user_authorization u (users s) of
        None \<Rightarrow> (Done Failed, s)
      | Some coll \<Rightarrow>
          (Done (Verified (authorizedAt (charityAuthorization u))), s\<lparr> users := coll \<rparr>))"
| "resume_verify clk req_user (Done r) s = (Done r, s)"

text \<open>One request served alone: no other request runs between its awaits.\<close>

definition run_alone :: "clock \<Rightarrow> user \<Rightarrow> req_state \<Rightarrow> db \<Rightarrow> req_state \<times> db" where
  "run_alone clk req_user st s =
     (let (r1, s1) = resume_verify clk req_user st s;
          (r2, s2) = resume_verify clk req_user r1 s1;
          (r3, s3) = resume_verify clk req_user r2 s2
      in resume_verify clk req_user r3 s3)"

definition verify_charity_code :: "clock \<Rightarrow> user \<Rightarrow> jsobj \<Rightarrow> db \<Rightarrow> req_state \<times> db" where
  "verify_charity_code clk req_user body s = run_alone clk req_user (begin_verify req_user body) s"

text \<open>The operation on a code that passed the validation.\<close>

definition redeem :: "clock \<Rightarrow> user \<Rightarrow> string \<Rightarrow> db \<Rightarrow> req_state \<times> db" where
  "redeem clk req_user c s = run_alone clk req_user (begin_redeem req_user c) s"

text \<open>
  Lines 194-201 of the route on their own: the user is fetched and the authorization is
  set and saved.
\<close>

definition attach_authorization :: "clock \<Rightarrow> user \<Rightarrow> charity_code \<Rightarrow> db \<Rightarrow> req_state \<times> db" where
  "attach_authorization clk req_user charityCode s =
     (let (r1, s1) = resume_verify clk req_user (AwaitFindUser charityCode) s
      in resume_verify clk req_user r1 s1)"

text \<open>
  Several requests in flight. The schedule lists, in order, the request whose awaited
  operation takes place next.
\<close>

record request =
  rq_clock :: clock
  rq_user :: user
  rq_state :: req_state

fun run_schedule :: "nat list \<Rightarrow> request list \<Rightarrow> db \<Rightarrow> request list \<times> db" where
  "run_schedule [] rs s = (rs, s)"
| "run_schedule (i # sched) rs s =
     (if i < length rs
      then (let r = rs ! i;
                (st', s') = resume_verify (rq_clock r) (rq_user r) (rq_state r) s
            in run_schedule sched (rs[i := r\<lparr> rq_state := st' \<rparr>]) s')
      else run_schedule sched rs s)"

text \<open>PUT /charity-codes/:id/deactivate (200, 400, 404).\<close>

datatype deactivate_result = Deactivated | CannotDeactivateUsed | CodeNotFound | DeactivateFailed

definition deactivate_code :: "oid \<Rightarrow> db \<Rightarrow> deactivate_result \<times> db" where
  "deactivate_code i s =
     (case findCodeById i (codes s) of
        None \<Rightarrow> (CodeNotFound, s)
      | Some c \<Rightarrow>
          if isUsed c then (CannotDeactivateUsed, s)
          else (case save_code_active (c\<lparr> isActive := False \<rparr>) (codes s) of
                  None \<Rightarrow> (DeactivateFailed, s)
                | Some coll \<Rightarrow> (Deactivated, s\<lparr> codes := coll \<rparr>)))"

section \<open>POST /charity-codes/bulk\<close>

text \<open>Decimal digits of a number, as a template literal prints it.\<close>

fun show_nat :: "nat \<Rightarrow> string" where
  "show_nat n =
     (if n < 10 then [''0123456789'' ! n]
      else show_nat (n div 10) @ [''0123456789'' ! (n mod 10)])"

text \<open>
  The schema's \<open>trim\<close> setter is \<open>String.prototype.trim\<close>. A stored String is the
  bytes of its UTF-8 encoding, so the white space and line terminators of ECMAScript are
  these byte sequences, removed from both ends.
\<close>

definition white_space :: "string list" where
  "white_space =
     [[CHR 0x09],
      [CHR 0x0A],
      [CHR 0x0B],
      [CHR 0x0C],
      [CHR 0x0D],
      [CHR 0x20],
      [CHR 0xC2, CHR 0xA0],
      [CHR 0xE1, CHR 0x9A, CHR 0x80],
      [CHR 0xE2, CHR 0x80, CHR 0x80],
      [CHR 0xE2, CHR 0x80, CHR 0x81],
      [CHR 0xE2, CHR 0x80, CHR 0x82],
      [CHR 0xE2, CHR 0x80, CHR 0x83],
      [CHR 0xE2, CHR 0x80, CHR 0x84],
      [CHR 0xE2, CHR 0x80, CHR 0x85],
      [CHR 0xE2, CHR 0x80, CHR 0x86],
      [CHR 0xE2, CHR 0x80, CHR 0x87],
      [CHR 0xE2, CHR 0x80, CHR 0x88],
      [CHR 0xE2, CHR 0x80, CHR 0x89],
      [CHR 0xE2, CHR 0x80, CHR 0x8A],
      [CHR 0xE2, CHR 0x80, CHR 0xA8],
      [CHR 0xE2, CHR 0x80, CHR 0xA9],
      [CHR 0xE2, CHR 0x80, CHR 0xAF],
      [CHR 0xE2, CHR 0x81, CHR 0x9F],
      [CHR 0xE3, CHR 0x80, CHR 0x80],
      [CHR 0xEF, CHR 0xBB, CHR 0xBF]]"

fun strip_leading :: "string list \<Rightarrow> string \<Rightarrow> string" where
  "strip_leading ws [] = []"
| "strip_leading ws (c # cs) =
     (if [c] \<in> set ws then strip_leading ws cs
      else if 1 \<le> length cs \<and> c # take 1 cs \<in> set ws then strip_leading ws (drop 1 cs)
      else if 2 \<le> length cs \<and> c # take 2 cs \<in> set ws then strip_leading ws (drop 2 cs)
      else c # cs)"

definition trim :: "string \<Rightarrow> string" where
  "trim t = rev (strip_leading (map rev white_space) (rev (strip_leading white_space t)))"

text \<open>The validated body of the request.\<close>

record bulk_value =
  count :: nat
  bv_expiresAt :: date
  bv_description :: "string option"

text \<open>The description given to the code of iteration \<open>i\<close>.\<close>

definition batch_description :: "bulk_value \<Rightarrow> nat \<Rightarrow> string" where
  "batch_description v i =
     (case bv_description v of
        Some t \<Rightarrow>
          if t \<noteq> [] then t @ '' ('' @ show_nat (i + 1) @ ''/'' @ show_nat (count v) @ '')''
          else ''Batch code '' @ show_nat (i + 1)
      | None \<Rightarrow> ''Batch code '' @ show_nat (i + 1))"

text \<open>\<open>new CharityCode({code, expiresAt, description, createdBy})\<close>, with the schema's
  setters and defaults and a new \<open>_id\<close>.\<close>

definition new_charity_code :: "oid \<Rightarrow> string \<Rightarrow> date \<Rightarrow> string \<Rightarrow> oid \<Rightarrow> charity_code" where
  "new_charity_code i c e d u =
     \<lparr> cc_id = i, code = toUpperCase (trim c), expiresAt = e, isUsed = False, usedBy = None,
       createdBy = u, description = Some (trim d), isActive = True \<rparr>"

text \<open>\<open>save()\<close> of a new document: an insert, which the unique index on \<open>code\<close> rejects
  (\<open>None\<close>) when a stored document carries the same code.\<close>

definition insert_code :: "charity_code \<Rightarrow> charity_code list \<Rightarrow> charity_code list option" where
  "insert_code doc coll =
     (if list_ex (\<lambda>d. code d = code doc) coll then None else Some (coll @ [doc]))"

text \<open>
  The handler is an async function. Inside the for loop it awaits only the \<open>findOne\<close>
  of the do-while condition; each \<open>charityCode.save()\<close> is started and its promise
  pushed, and no handler is attached to these promises before \<open>Promise.all\<close>, after the
  loop. A save therefore settles at any later moment, also while the loop still runs.

  The state of the handler: the codes pushed, the random generator (the list of the
  codes that \<open>generateCode()\<close> will return), the save promises with their documents, and
  the point the handler is at.
\<close>

datatype save_status = InFlight | Fulfilled | Rejected

text \<open>The responses: 201 with the saved codes, or 500 from the catch block.\<close>

datatype bulk_result = BulkCreated "string list" | BulkFailed

text \<open>
  \<open>AwaitFind c\<close>: in the do-while, waiting for \<open>findOne({code: c})\<close>. \<open>Drawing\<close>: in
  the do-while, with every code of the list drawn and none free yet. \<open>AwaitAll\<close>:
  after the loop, waiting for \<open>Promise.all\<close>. \<open>Responded r\<close>: the response was sent.
  \<open>Terminated\<close>: the process was ended by an unhandled rejection.
\<close>

datatype bulk_phase = AwaitFind string | Drawing | AwaitAll | Responded bulk_result | Terminated

record bulk_handler =
  bh_codes :: "string list"
  bh_random :: "string list"
  bh_saves :: "(charity_code \<times> save_status) list"
  bh_phase :: bulk_phase

text \<open>
  What the handler is given: the authenticated user, the validated body, the \<open>_id\<close> of
  the document of each iteration, and whether the runtime ends the process on an
  unhandled rejection (the default since Node 15; the server installs no hook).
\<close>

record bulk_config =
  bc_user :: user
  bc_value :: bulk_value
  bc_new_id :: "nat \<Rightarrow> oid"
  bc_unhandled_throws :: bool

text \<open>
  The do-while up to its \<open>await\<close>: codes are drawn while \<open>codes.includes(code)\<close> holds,
  and \<open>findOne\<close> is awaited for the first one that is not among the pushed codes.
\<close>

fun draw :: "string list \<Rightarrow> string list \<Rightarrow> bulk_phase \<times> string list" where
  "draw pushed [] = (Drawing, [])"
| "draw pushed (c # random) =
     (if c \<in> set pushed then draw pushed random else (AwaitFind c, random))"

definition any_rejected :: "(charity_code \<times> save_status) list \<Rightarrow> bool" where
  "any_rejected ps = list_ex (\<lambda>p. snd p = Rejected) ps"

definition all_fulfilled :: "(charity_code \<times> save_status) list \<Rightarrow> bool" where
  "all_fulfilled ps = list_all (\<lambda>p. snd p = Fulfilled) ps"

text \<open>\<open>await Promise.all(codePromises)\<close> and the response: rejected as soon as one promise
  is rejected, fulfilled when all are.\<close>

definition await_all :: "bulk_handler \<Rightarrow> bulk_handler" where
  "await_all h =
     h\<lparr> bh_phase :=
          (if any_rejected (bh_saves h) then Responded BulkFailed
           else if all_fulfilled (bh_saves h)
                then Responded (BulkCreated (map (code \<circ> fst) (bh_saves h)))
                else AwaitAll) \<rparr>"

text \<open>The head of the for loop, with \<open>i\<close> the number of codes pushed.\<close>

definition next_iteration :: "bulk_config \<Rightarrow> bulk_handler \<Rightarrow> bulk_handler" where
  "next_iteration cfg h =
     (if length (bh_codes h) < count (bc_value cfg)
      then (case draw (bh_codes h) (bh_random h) of
              (ph, random) \<Rightarrow> h\<lparr> bh_phase := ph, bh_random := random \<rparr>)
      else await_all h)"

definition bulk_begin :: "bulk_config \<Rightarrow> string list \<Rightarrow> bulk_handler" where
  "bulk_begin cfg random =
     next_iteration cfg \<lparr> bh_codes = [], bh_random = random, bh_saves = [], bh_phase = AwaitAll \<rparr>"

text \<open>
  A save promise has settled. While the loop runs nothing handles a rejection: the
  runtime ends the process, or only warns. After the loop \<open>Promise.all\<close> handles it.
\<close>

definition settled :: "bulk_config \<Rightarrow> bulk_handler \<Rightarrow> bulk_handler" where
  "settled cfg h =
     (case bh_phase h of
        AwaitAll \<Rightarrow> await_all h
      | AwaitFind c \<Rightarrow>
          if bc_unhandled_throws cfg \<and> any_rejected (bh_saves h)
          then h\<lparr> bh_phase := Terminated \<rparr> else h
      | Drawing \<Rightarrow>
          if bc_unhandled_throws cfg \<and> any_rejected (bh_saves h)
          then h\<lparr> bh_phase := Terminated \<rparr> else h
      | Responded r \<Rightarrow> h
      | Terminated \<Rightarrow> h)"

text \<open>
  What can happen next: the awaited \<open>findOne\<close> returns; the insert of save promise \<open>k\<close>
  reaches the store and the promise settles; save promise \<open>k\<close> is rejected before its
  insert reached the store (the connection is lost); another request inserts a document.
\<close>

datatype bulk_event = FindReturns | SaveSettles nat | SaveFails nat | OtherInserts charity_code

fun bulk_step :: "bulk_config \<Rightarrow> bulk_event \<Rightarrow> bulk_handler \<times> charity_code list \<Rightarrow> bulk_handler \<times> charity_code list" where
  "bulk_step cfg FindReturns (h, coll) =
     (case bh_phase h of
        AwaitFind c \<Rightarrow>
          if find (\<lambda>d. code d = c) coll \<noteq> None
          then (case draw (bh_codes h) (bh_random h) of
                  (ph, random) \<Rightarrow> (h\<lparr> bh_phase := ph, bh_random := random \<rparr>, coll))
          else (next_iteration cfg
                  (h\<lparr> bh_codes := bh_codes h @ [c],
                      bh_saves := bh_saves h @
                        [(new_charity_code (bc_new_id cfg (length (bh_codes h))) c
                            (bv_expiresAt (bc_value cfg))
                            (batch_description (bc_value cfg) (length (bh_codes h)))
                            (u_id (bc_user cfg)), InFlight)] \<rparr>), coll)
      | _ \<Rightarrow> (h, coll))"
| "bulk_step cfg (SaveSettles k) (h, coll) =
     (if k < length (bh_saves h) \<and> snd (bh_saves h ! k) = InFlight
      then (case insert_code (fst (bh_saves h ! k)) coll of
              Some coll' \<Rightarrow>
                (settled cfg (h\<lparr> bh_saves := (bh_saves h)[k := (fst (bh_saves h ! k), Fulfilled)] \<rparr>),
                 coll')
            | None \<Rightarrow>
                (settled cfg (h\<lparr> bh_saves := (bh_saves h)[k := (fst (bh_saves h ! k), Rejected)] \<rparr>),
                 coll))
      else (h, coll))"
| "bulk_step cfg (SaveFails k) (h, coll) =
     (if k < length (bh_saves h) \<and> snd (bh_saves h ! k) = InFlight
      then (settled cfg (h\<lparr> bh_saves := (bh_saves h)[k := (fst (bh_saves h ! k), Rejected)] \<rparr>),
            coll)
      else (h, coll))"
| "bulk_step cfg (OtherInserts d) (h, coll) =
     (h, case insert_code d coll of None \<Rightarrow> coll | Some coll' \<Rightarrow> coll')"

fun bulk_run :: "bulk_config \<Rightarrow> bulk_event list \<Rightarrow> bulk_handler \<times> charity_code list \<Rightarrow> bulk_handler \<times> charity_code list" where
  "bulk_run cfg [] st = st"
| "bulk_run cfg (e # es) st = bulk_run cfg es (bulk_step cfg e st)"

text \<open>The handler on a store, under a sequence of events.\<close>

definition bulk_create :: "bulk_config \<Rightarrow> string list \<Rightarrow> bulk_event list \<Rightarrow> charity_code list \<Rightarrow> bulk_handler \<times> charity_code list" where
  "bulk_create cfg random events coll = bulk_run cfg events (bulk_begin cfg random, coll)"




text \<open>One request served alone, each save settling before the next \<open>findOne\<close> returns.\<close>

fun alone_events :: "nat \<Rightarrow> bulk_event list" where
  "alone_events 0 = []"
| "alone_events (Suc n) = alone_events n @ [FindReturns, SaveSettles n]"

section \<open>Admin routes: PUT /users/:id and DELETE /users/:id\<close>

definition toLowerChar :: "char \<Rightarrow> char" where
  "toLowerChar c =
     (case map_of (zip ''ABCDEFGHIJKLMNOPQRSTUVWXYZ'' ''abcdefghijklmnopqrstuvwxyz'') c of
        Some l \<Rightarrow> l | None \<Rightarrow> c)"

text \<open>The validated value: the keys of the body that were present.\<close>

record update_value =
  v_accountType :: "account_type option"
  v_isActive :: "bool option"

text \<open>
  \<open>updateUserSchema.validate(req.body)\<close> on a parsed JSON object. No other property is
  allowed; \<open>accountType\<close>, when present, is one of the strings individual and charity;
  \<open>isActive\<close>, when present, is a boolean (the strings true and false, in any case, are
  converted). \<open>None\<close> is a validation error.
\<close>

definition validate_accountType :: "jsval option \<Rightarrow> account_type option option" where
  "validate_accountType v =
     (case v of
        None \<Rightarrow> Some None
      | Some (JStr x) \<Rightarrow>
          if x = ''individual'' then Some (Some Individual)
          else if x = ''charity'' then Some (Some Charity)
          else None
      | Some _ \<Rightarrow> None)"

definition validate_isActive :: "jsval option \<Rightarrow> bool option option" where
  "validate_isActive v =
     (case v of
        None \<Rightarrow> Some None
      | Some (JBool b) \<Rightarrow> Some (Some b)
      | Some (JStr x) \<Rightarrow>
          if map toLowerChar x = ''true'' then Some (Some True)
          else if map toLowerChar x = ''false'' then Some (Some False)
          else None
      | Some _ \<Rightarrow> None)"

definition updateUserSchema :: "jsobj \<Rightarrow> update_value option" where
  "updateUserSchema body =
     (if list_ex (\<lambda>p. fst p \<noteq> ''accountType'' \<and> fst p \<noteq> ''isActive'') body then None
      else case validate_accountType (map_of body ''accountType'') of
             None \<Rightarrow> None
           | Some a \<Rightarrow>
               (case validate_isActive (map_of body ''isActive'') of
                  None \<Rightarrow> None
                | Some b \<Rightarrow> Some \<lparr> v_accountType = a, v_isActive = b \<rparr>))"

text \<open>The responses of the two routes: 200, 400, 404, 403 and 500.\<close>

datatype user_admin_result = UserUpdated | UserDeleted | InvalidBody | UserNotFound | Forbidden | ServerError

text \<open>\<open>Object.keys(value).forEach(key => user[key] = value[key])\<close>.\<close>

definition assign_fields :: "update_value \<Rightarrow> user \<Rightarrow> user" where
  "assign_fields v u =
     u\<lparr> accountType := (case v_accountType v of None \<Rightarrow> accountType u | Some a \<Rightarrow> a),
        u_isActive := (case v_isActive v of None \<Rightarrow> u_isActive u | Some b \<Rightarrow> b) \<rparr>"

text \<open>\<open>user.save()\<close> then writes the paths that were assigned.\<close>

definition save_user_fields :: "update_value \<Rightarrow> user \<Rightarrow> user list \<Rightarrow> user list option" where
  "save_user_fields v doc coll =
     updateOne (\<lambda>d. u_id d = u_id doc)
       (\<lambda>d. d\<lparr> accountType := (case v_accountType v of None \<Rightarrow> accountType d | Some a \<Rightarrow> accountType doc),
               u_isActive := (case v_isActive v of None \<Rightarrow> u_isActive d | Some b \<Rightarrow> u_isActive doc) \<rparr>) coll"

definition update_user :: "jsobj \<Rightarrow> oid \<Rightarrow> db \<Rightarrow> user_admin_result \<times> db" where
  "update_user body i s =
     (case updateUserSchema body of
        None \<Rightarrow> (InvalidBody, s)
      | Some v \<Rightarrow>
          (case findUserById i (users s) of
             None \<Rightarrow> (UserNotFound, s)
           | Some u \<Rightarrow>
               if accountType u = Admin then (Forbidden, s)
               else (case save_user_fields v (assign_fields v u) (users s) of
                       None \<Rightarrow> (ServerError, s)
                     | Some coll \<Rightarrow> (UserUpdated, s\<lparr> users := coll \<rparr>))))"

definition delete_user :: "oid \<Rightarrow> db \<Rightarrow> user_admin_result \<times> db" where
  "delete_user i s =
     (case findUserById i (users s) of
        None \<Rightarrow> (UserNotFound, s)
      | Some u \<Rightarrow>
          if accountType u = Admin then (Forbidden, s)
          else (UserDeleted,
                s\<lparr> charities := deleteMany (\<lambda>c. owner c = u_id u) (charities s),
                   users := deleteOne (\<lambda>d. u_id d = i) (users s) \<rparr>))"

section \<open>utils/encryption.js: EncryptionUtil\<close>

text \<open>
  A JavaScript string is a sequence of 16-bit code units, and a buffer a sequence of
  bytes. The \<open>utf8\<close> input encoding reads the string as code points, a surrogate pair
  as one code point and a surrogate without its partner as U+FFFD, and writes each in
  UTF-8. The \<open>utf8\<close> output encoding decodes UTF-8, with U+FFFD for every ill-formed
  sequence, and writes each code point as one or two code units.
\<close>

type_synonym jsstring = "16 word list"
type_synonym bytes = "8 word list"

definition high_surrogate :: "16 word \<Rightarrow> bool" where
  "high_surrogate u = (0xD800 \<le> u \<and> u \<le> 0xDBFF)"

definition low_surrogate :: "16 word \<Rightarrow> bool" where
  "low_surrogate u = (0xDC00 \<le> u \<and> u \<le> 0xDFFF)"

fun code_points :: "jsstring \<Rightarrow> nat list" where
  "code_points [] = []"
| "code_points [u] = (if high_surrogate u \<or> low_surrogate u then [0xFFFD] else [unat u])"
| "code_points (u # l # rest) =
     (if high_surrogate u
      then (if low_surrogate l
            then (0x10000 + (unat u - 0xD800) * 0x400 + (unat l - 0xDC00)) # code_points rest
            else 0xFFFD # code_points (l # rest))
      else if low_surrogate u then 0xFFFD # code_points (l # rest)
      else unat u # code_points (l # rest))"

text \<open>The UTF-8 bytes of a code point, as numbers.\<close>

definition utf8_of_code_point :: "nat \<Rightarrow> nat list" where
  "utf8_of_code_point c =
     (if c < 0x80 then [c]
      else if c < 0x800 then [0xC0 + c div 0x40, 0x80 + c mod 0x40]
      else if c < 0x10000 then [0xE0 + c div 0x1000, 0x80 + c div 0x40 mod 0x40, 0x80 + c mod 0x40]
      else [0xF0 + c div 0x40000, 0x80 + c div 0x1000 mod 0x40, 0x80 + c div 0x40 mod 0x40,
            0x80 + c mod 0x40])"

definition utf8_encode :: "jsstring \<Rightarrow> bytes" where
  "utf8_encode s = map of_nat (concat (map utf8_of_code_point (code_points s)))"

text \<open>The UTF-8 decoder: a lead byte, then its continuation bytes within their bounds.\<close>

definition continuation :: "nat \<Rightarrow> bool" where
  "continuation b = (0x80 \<le> b \<and> b \<le> 0xBF)"

definition second_lower :: "nat \<Rightarrow> nat" where
  "second_lower b = (if b = 0xE0 then 0xA0 else if b = 0xF0 then 0x90 else 0x80)"

definition second_upper :: "nat \<Rightarrow> nat" where
  "second_upper b = (if b = 0xED then 0x9F else if b = 0xF4 then 0x8F else 0xBF)"

fun utf8_code_points :: "nat list \<Rightarrow> nat list" where
  "utf8_code_points [] = []"
| "utf8_code_points (b # bs) =
     (if b < 0x80 then b # utf8_code_points bs
      else if 0xC2 \<le> b \<and> b \<le> 0xDF then
        (case bs of
           [] \<Rightarrow> [0xFFFD]
         | b1 # r1 \<Rightarrow>
             if continuation b1 then ((b - 0xC0) * 0x40 + (b1 - 0x80)) # utf8_code_points r1
             else 0xFFFD # utf8_code_points bs)
      else if 0xE0 \<le> b \<and> b \<le> 0xEF then
        (case bs of
           [] \<Rightarrow> [0xFFFD]
         | b1 # r1 \<Rightarrow>
             if second_lower b \<le> b1 \<and> b1 \<le> second_upper b then
               (case r1 of
                  [] \<Rightarrow> [0xFFFD]
                | b2 # r2 \<Rightarrow>
                    if continuation b2
                    then ((b - 0xE0) * 0x1000 + (b1 - 0x80) * 0x40 + (b2 - 0x80)) # utf8_code_points r2
                    else 0xFFFD # utf8_code_points r1)
             else 0xFFFD # utf8_code_points bs)
      else if 0xF0 \<le> b \<and> b \<le> 0xF4 then
        (case bs of
           [] \<Rightarrow> [0xFFFD]
         | b1 # r1 \<Rightarrow>
             if second_lower b \<le> b1 \<and> b1 \<le> second_upper b then
               (case r1 of
                  [] \<Rightarrow> [0xFFFD]
                | b2 # r2 \<Rightarrow>
                    if continuation b2 then
                      (case r2 of
                         [] \<Rightarrow> [0xFFFD]
                       | b3 # r3 \<Rightarrow>
                           if continuation b3
                           then ((b - 0xF0) * 0x40000 + (b1 - 0x80) * 0x1000 + (b2 - 0x80) * 0x40
                                   + (b3 - 0x80)) # utf8_code_points r3
                           else 0xFFFD # utf8_code_points r2)
                    else 0xFFFD # utf8_code_points r1)
             else 0xFFFD # utf8_code_points bs)
      else 0xFFFD # utf8_code_points bs)"

definition units_of_code_point :: "nat \<Rightarrow> jsstring" where
  "units_of_code_point c =
     (if c < 0x10000 then [of_nat c]
      else [of_nat (0xD800 + (c - 0x10000) div 0x400), of_nat (0xDC00 + (c - 0x10000) mod 0x400)])"

definition utf8_decode :: "bytes \<Rightarrow> jsstring" where
  "utf8_decode bs = concat (map units_of_code_point (utf8_code_points (map unat bs)))"

text \<open>A string is well formed when every surrogate is part of a pair.\<close>

fun well_formed :: "jsstring \<Rightarrow> bool" where
  "well_formed [] = True"
| "well_formed [u] = (\<not> high_surrogate u \<and> \<not> low_surrogate u)"
| "well_formed (u # l # rest) =
     (if high_surrogate u then low_surrogate l \<and> well_formed rest
      else \<not> low_surrogate u \<and> well_formed (l # rest))"

text \<open>The code points that UTF-8 encodes.\<close>

definition scalar_value :: "nat \<Rightarrow> bool" where
  "scalar_value c = (c < 0x110000 \<and> \<not> (0xD800 \<le> c \<and> c \<le> 0xDFFF))"

text \<open>\<open>String.prototype.toWellFormed\<close>: every unpaired surrogate replaced by U+FFFD.\<close>

definition toWellFormed :: "jsstring \<Rightarrow> jsstring" where
  "toWellFormed s = concat (map units_of_code_point (code_points s))"

text \<open>An ASCII literal as a JavaScript string.\<close>

definition js :: "string \<Rightarrow> jsstring" where
  "js s = map (\<lambda>c. of_nat (of_char c)) s"

text \<open>
  The \<open>hex\<close> output encoding writes two lower-case digits per byte. The \<open>hex\<close> input
  encoding throws (\<open>None\<close>) on a string of odd length; otherwise it reads pairs of
  digits and stops at the first pair that is not hexadecimal.
\<close>

definition hex_digit :: "nat \<Rightarrow> 16 word" where
  "hex_digit n = of_nat (if n < 10 then 0x30 + n else 0x57 + n)"

definition hex_value :: "16 word \<Rightarrow> nat option" where
  "hex_value u =
     (let n = unat u in
        if 0x30 \<le> n \<and> n \<le> 0x39 then Some (n - 0x30)
        else if 0x61 \<le> n \<and> n \<le> 0x66 then Some (n - 0x57)
        else if 0x41 \<le> n \<and> n \<le> 0x46 then Some (n - 0x37)
        else None)"

definition hex_encode :: "bytes \<Rightarrow> jsstring" where
  "hex_encode bs = concat (map (\<lambda>b. [hex_digit (unat b div 16), hex_digit (unat b mod 16)]) bs)"

fun hex_pairs :: "jsstring \<Rightarrow> bytes" where
  "hex_pairs (a # b # rest) =
     (case hex_value a of
        None \<Rightarrow> []
      | Some x \<Rightarrow> (case hex_value b of
                     None \<Rightarrow> []
                   | Some y \<Rightarrow> of_nat (16 * x + y) # hex_pairs rest))"
| "hex_pairs [a] = []"
| "hex_pairs [] = []"

definition hex_input :: "jsstring \<Rightarrow> bytes option" where
  "hex_input s = (if odd (length s) then None else Some (hex_pairs s))"

text \<open>The encoding arguments of \<open>update\<close> and \<open>final\<close>.\<close>

datatype encoding = Utf8 | Hex

definition input_bytes :: "encoding \<Rightarrow> jsstring \<Rightarrow> bytes option" where
  "input_bytes enc s = (case enc of Utf8 \<Rightarrow> Some (utf8_encode s) | Hex \<Rightarrow> hex_input s)"

definition output_string :: "encoding \<Rightarrow> bytes \<Rightarrow> jsstring" where
  "output_string enc bs = (case enc of Utf8 \<Rightarrow> utf8_decode bs | Hex \<Rightarrow> hex_encode bs)"

text \<open>
  Node's \<open>crypto\<close> module is not part of the repository; it is a parameter.
  \<open>createCipher lib algorithm password data\<close> stands for the bytes that
  \<open>crypto.createCipher(algorithm, password)\<close> produces for \<open>data\<close> through \<open>update\<close>
  and \<open>final\<close>, and \<open>createDecipher\<close> likewise; \<open>None\<close> when one of the calls throws.
  The key is the module's constant \<open>ENCRYPTION_KEY\<close>, read from the environment.
\<close>

record crypto =
  createCipher :: "string \<Rightarrow> string \<Rightarrow> bytes \<Rightarrow> bytes option"
  createDecipher :: "string \<Rightarrow> string \<Rightarrow> bytes \<Rightarrow> bytes option"

text \<open>\<open>c.update(data, inputEncoding, outputEncoding) + c.final(outputEncoding)\<close>.\<close>

definition update_final :: "(bytes \<Rightarrow> bytes option) \<Rightarrow> jsstring \<Rightarrow> encoding \<Rightarrow> encoding \<Rightarrow> jsstring option" where
  "update_final c data inputEncoding outputEncoding =
     (case input_bytes inputEncoding data of
        None \<Rightarrow> None
      | Some bs \<Rightarrow> map_option (output_string outputEncoding) (c bs))"

text \<open>
  \<open>simpleEncrypt\<close> and \<open>simpleDecrypt\<close>. A missing or empty argument is falsy and gives
  null (\<open>None\<close>). \<open>simpleEncrypt\<close> has no try block, so a throw of the cipher leaves it;
  in \<open>simpleDecrypt\<close> the catch block turns every throw into null.
\<close>

datatype 'a outcome = Returns 'a | Throws

definition simpleEncrypt :: "crypto \<Rightarrow> string \<Rightarrow> jsstring option \<Rightarrow> jsstring option outcome" where
  "simpleEncrypt lib ENCRYPTION_KEY text =
     (case text of
        None \<Rightarrow> Returns None
      | Some t \<Rightarrow>
          if t = [] then Returns None
          else (case update_final (createCipher lib ''aes192'' ENCRYPTION_KEY) t Utf8 Hex of
                  None \<Rightarrow> Throws
                | Some encrypted \<Rightarrow> Returns (Some encrypted)))"

definition simpleDecrypt :: "crypto \<Rightarrow> string \<Rightarrow> jsstring option \<Rightarrow> jsstring option" where
  "simpleDecrypt lib ENCRYPTION_KEY encrypted =
     (case encrypted of
        None \<Rightarrow> None
      | Some e \<Rightarrow>
          if e = [] then None
          else (case update_final (createDecipher lib ''aes192'' ENCRYPTION_KEY) e Hex Utf8 of
                  None \<Rightarrow> None
                | Some decrypted \<Rightarrow> Some decrypted))"

section \<open>models/Charity.js: getDecryptedData\<close>

text \<open>
  An object all of whose paths are Strings is the list of its keys with their values.
  \<open>decrypt_if_set\<close> is \<open>if (o[key]) o[key] = simpleDecrypt(o[key])\<close>, and \<open>decrypt_keys\<close>
  the \<open>Object.keys(o).forEach\<close> loop around it.
\<close>

type_synonym strobj = "(string \<times> jsstring option) list"

definition truthy :: "jsstring option \<Rightarrow> bool" where
  "truthy v = (v \<noteq> None \<and> v \<noteq> Some [])"

definition decrypt_if_set :: "crypto \<Rightarrow> string \<Rightarrow> jsstring option \<Rightarrow> jsstring option" where
  "decrypt_if_set lib key v = (if truthy v then simpleDecrypt lib key v else v)"

definition decrypt_keys :: "crypto \<Rightarrow> string \<Rightarrow> strobj \<Rightarrow> strobj" where
  "decrypt_keys lib key obj = map (\<lambda>p. (fst p, decrypt_if_set lib key (snd p))) obj"

record legal_info =
  registrationNumber :: "jsstring option"
  taxId :: "jsstring option"
  legalStructure :: "jsstring option"
  registeredAddress :: "strobj option"

record contact_info =
  primaryContact :: "strobj option"
  mailingAddress :: "strobj option"

record financial_info =
  annualBudget :: "jsstring option"
  fundingSources :: "jsstring option list"
  bankingInfo :: "strobj option"

record program =
  p_name :: "jsstring option"
  p_description :: "jsstring option"
  targetAudience :: "jsstring option"
  budget :: "jsstring option"
  startDate :: "int option"
  endDate :: "int option"
  p_isActive :: bool

record charity = charity_ref +
  basicInfo :: "strobj option"
  legalInfo :: "legal_info option"
  contactInfo :: "contact_info option"
  financialInfo :: "financial_info option"
  programs :: "program list"
  customFields :: "strobj option"
  status :: string
  isPublic :: bool

definition decrypt_legalInfo :: "crypto \<Rightarrow> string \<Rightarrow> legal_info \<Rightarrow> legal_info" where
  "decrypt_legalInfo lib key l =
     \<lparr> registrationNumber = decrypt_if_set lib key (registrationNumber l),
       taxId = decrypt_if_set lib key (taxId l),
       legalStructure = decrypt_if_set lib key (legalStructure l),
       registeredAddress = map_option (decrypt_keys lib key) (registeredAddress l) \<rparr>"

definition decrypt_contactInfo :: "crypto \<Rightarrow> string \<Rightarrow> contact_info \<Rightarrow> contact_info" where
  "decrypt_contactInfo lib key c =
     \<lparr> primaryContact = map_option (decrypt_keys lib key) (primaryContact c),
       mailingAddress = map_option (decrypt_keys lib key) (mailingAddress c) \<rparr>"

definition decrypt_financialInfo :: "crypto \<Rightarrow> string \<Rightarrow> financial_info \<Rightarrow> financial_info" where
  "decrypt_financialInfo lib key f =
     \<lparr> annualBudget = decrypt_if_set lib key (annualBudget f),
       fundingSources = map (simpleDecrypt lib key) (fundingSources f),
       bankingInfo = map_option (decrypt_keys lib key) (bankingInfo f) \<rparr>"

definition decrypt_program :: "crypto \<Rightarrow> string \<Rightarrow> program \<Rightarrow> program" where
  "decrypt_program lib key p =
     p\<lparr> p_name := decrypt_if_set lib key (p_name p),
        p_description := decrypt_if_set lib key (p_description p),
        targetAudience := decrypt_if_set lib key (targetAudience p),
        budget := decrypt_if_set lib key (budget p) \<rparr>"

definition decrypt_customFields :: "crypto \<Rightarrow> string \<Rightarrow> strobj \<Rightarrow> strobj" where
  "decrypt_customFields lib key m = map (\<lambda>p. (fst p, simpleDecrypt lib key (snd p))) m"

definition getDecryptedData :: "crypto \<Rightarrow> string \<Rightarrow> charity \<Rightarrow> charity" where
  "getDecryptedData lib key ch =
     ch\<lparr> basicInfo := map_option (decrypt_keys lib key) (basicInfo ch),
         legalInfo := map_option (decrypt_legalInfo lib key) (legalInfo ch),
         contactInfo := map_option (decrypt_contactInfo lib key) (contactInfo ch),
         financialInfo := map_option (decrypt_financialInfo lib key) (financialInfo ch),
         programs := map (decrypt_program lib key) (programs ch),
         customFields := map_option (decrypt_customFields lib key) (customFields ch) \<rparr>"

text \<open>
  The encrypted fields of a charity, named by their path, and the value stored at a path
  (\<open>None\<close> when the record has no such path).
\<close>

datatype field_path =
    BasicInfo string
  | RegistrationNumber
  | TaxId
  | LegalStructure
  | RegisteredAddress string
  | PrimaryContact string
  | MailingAddress string
  | AnnualBudget
  | FundingSource nat
  | BankingInfo string
  | ProgramName nat
  | ProgramDescription nat
  | ProgramTargetAudience nat
  | ProgramBudget nat
  | CustomField string

definition key_of :: "strobj option \<Rightarrow> string \<Rightarrow> jsstring option option" where
  "key_of obj k = (case obj of None \<Rightarrow> None | Some o' \<Rightarrow> map_of o' k)"

definition item_of :: "'a list \<Rightarrow> nat \<Rightarrow> 'a option" where
  "item_of xs i = (if i < length xs then Some (xs ! i) else None)"

fun field_at :: "charity \<Rightarrow> field_path \<Rightarrow> jsstring option option" where
  "field_at ch (BasicInfo k) = key_of (basicInfo ch) k"
| "field_at ch RegistrationNumber = map_option registrationNumber (legalInfo ch)"
| "field_at ch TaxId = map_option taxId (legalInfo ch)"
| "field_at ch LegalStructure = map_option legalStructure (legalInfo ch)"
| "field_at ch (RegisteredAddress k) =
     (case legalInfo ch of None \<Rightarrow> None | Some l \<Rightarrow> key_of (registeredAddress l) k)"
| "field_at ch (PrimaryContact k) =
     (case contactInfo ch of None \<Rightarrow> None | Some c \<Rightarrow> key_of (primaryContact c) k)"
| "field_at ch (MailingAddress k) =
     (case contactInfo ch of None \<Rightarrow> None | Some c \<Rightarrow> key_of (mailingAddress c) k)"
| "field_at ch AnnualBudget = map_option annualBudget (financialInfo ch)"
| "field_at ch (FundingSource i) =
     (case financialInfo ch of None \<Rightarrow> None | Some f \<Rightarrow> item_of (fundingSources f) i)"
| "field_at ch (BankingInfo k) =
     (case financialInfo ch of None \<Rightarrow> None | Some f \<Rightarrow> key_of (bankingInfo f) k)"
| "field_at ch (ProgramName i) = map_option p_name (item_of (programs ch) i)"
| "field_at ch (ProgramDescription i) = map_option p_description (item_of (programs ch) i)"
| "field_at ch (ProgramTargetAudience i) = map_option targetAudience (item_of (programs ch) i)"
| "field_at ch (ProgramBudget i) = map_option budget (item_of (programs ch) i)"
| "field_at ch (CustomField k) = key_of (customFields ch) k"

text \<open>
  What a field holds after decoding, in terms of \<open>simpleDecrypt\<close> alone: the funding
  sources and the custom fields are decoded without a test, every other field only when
  it is set and not empty.
\<close>

fun unguarded :: "field_path \<Rightarrow> bool" where
  "unguarded (FundingSource i) = True"
| "unguarded (CustomField k) = True"
| "unguarded p = False"

definition decoded_field :: "crypto \<Rightarrow> string \<Rightarrow> field_path \<Rightarrow> jsstring option \<Rightarrow> jsstring option" where
  "decoded_field lib key p v =
     (if unguarded p \<or> truthy v then simpleDecrypt lib key v else v)"

section \<open>Example data\<close>

definition ex_user :: "oid \<Rightarrow> user" where
  "ex_user i =
     \<lparr> u_id = i, email = ''user@example.org'', password = ''$2a$12$hash'',
       accountType = Individual,
       charityAuthorization = \<lparr> auth_code = None, authorizedAt = None, canCreateCharity = False \<rparr>,
       personalInfo = [], profile = [(''isPublic'', JBool False)],
       refreshTokens = [''token''], lastLogin = None, u_isActive = True, emailVerified = False,
       verificationToken = Some ''verify'', createdAt = 0, updatedAt = 0 \<rparr>"

definition ex_granted_user :: user where
  "ex_granted_user =
     (ex_user 3)\<lparr> charityAuthorization :=
        \<lparr> auth_code = Some 5, authorizedAt = Some 1, canCreateCharity = True \<rparr> \<rparr>"

definition ex_admin :: user where
  "ex_admin = (ex_user 9)\<lparr> accountType := Admin \<rparr>"

definition ex_code :: charity_code where
  "ex_code =
     \<lparr> cc_id = 7, code = ''ABCD1234'', expiresAt = 100, isUsed = False, usedBy = None,
       createdBy = 9, description = None, isActive = True \<rparr>"

definition ex_db :: db where
  "ex_db = \<lparr> codes = [ex_code], users = [ex_user 1, ex_user 2, ex_granted_user, ex_admin],
             charities = [\<lparr> ch_id = 20, owner = 9 \<rparr>, \<lparr> ch_id = 21, owner = 1 \<rparr>] \<rparr>"

definition ex_clock :: "date \<Rightarrow> clock" where
  "ex_clock t = \<lparr> t_valid = t, t_reason = t, t_use = t, t_usedAt = t, t_authorized = t + 1 \<rparr>"

definition ex_new_id :: "nat \<Rightarrow> oid" where
  "ex_new_id i = 100 + i"

definition ex_bulk_value :: bulk_value where
  "ex_bulk_value = \<lparr> count = 2, bv_expiresAt = 500, bv_description = Some ''Spring'' \<rparr>"

definition ex_bulk_config :: "bool \<Rightarrow> bulk_config" where
  "ex_bulk_config throws =
     \<lparr> bc_user = ex_admin, bc_value = ex_bulk_value, bc_new_id = ex_new_id,
       bc_unhandled_throws = throws \<rparr>"

text \<open>Documents that another administrator's request inserts.\<close>

definition ex_other_code :: "string \<Rightarrow> charity_code" where
  "ex_other_code c = \<lparr> cc_id = 50, code = c, expiresAt = 300, isUsed = False, usedBy = None,
                       createdBy = 8, description = None, isActive = True \<rparr>"

text \<open>The two documents of the example batch.\<close>

definition ex_batch_doc :: "nat \<Rightarrow> charity_code" where
  "ex_batch_doc i =
     (if i = 0
      then \<lparr> cc_id = 100, code = ''AAAAAAAA'', expiresAt = 500, isUsed = False, usedBy = None,
             createdBy = 9, description = Some ''Spring (1/2)'', isActive = True \<rparr>
      else \<lparr> cc_id = 101, code = ''BBBBBBBB'', expiresAt = 500, isUsed = False, usedBy = None,
             createdBy = 9, description = Some ''Spring (2/2)'', isActive = True \<rparr>)"

text \<open>The codes that the generator returns, and two orders of events: another request
  inserts the second code before the second save lands, or the first code before the
  first save lands.\<close>

definition ex_random :: "string list" where
  "ex_random = [''AAAAAAAA'', ''BBBBBBBB'']"


definition ex_first_save_fails :: "bulk_event list" where
  "ex_first_save_fails =
     [FindReturns, OtherInserts (ex_other_code ''AAAAAAAA''), SaveSettles 0, FindReturns,
      SaveSettles 1]"

text \<open>A stand-in for the crypto module: it knows the algorithm aes192 only; its cipher
  reverses the bytes and appends one byte derived from the password, which its decipher
  checks.\<close>

definition ex_crypto :: crypto where
  "ex_crypto =
     \<lparr> createCipher = (\<lambda>algorithm password data.
          if algorithm = ''aes192'' then Some (rev data @ [of_nat (length password)]) else None),
       createDecipher = (\<lambda>algorithm password data.
          if algorithm = ''aes192''
          then (case rev data of
                  [] \<Rightarrow> None
                | p # bs \<Rightarrow> if p = of_nat (length password) then Some bs else None)
          else None) \<rparr>"

definition ex_charity :: charity where
  "ex_charity =
     \<lparr> ch_id = 21, owner = 1,
       basicInfo = Some [(''name'', Some (js ''6c61746e6501'')), (''description'', Some (js ''6101z'')),
                         (''mission'', None), (''email'', Some (js ''6201''))],
       legalInfo = Some \<lparr> registrationNumber = Some (js ''3101''), taxId = Some (js ''00''),
                          legalStructure = None,
                          registeredAddress = Some [(''city'', Some (js ''6101''))] \<rparr>,
       contactInfo = None,
       financialInfo = Some \<lparr> annualBudget = Some [], fundingSources = [Some (js ''6101''), Some (js ''q'')],
                              bankingInfo = None \<rparr>,
       programs = [],
       customFields = Some [(''k'', Some (js ''6b01''))],
       status = ''pending'', isPublic = False \<rparr>"

section \<open>Properties\<close>

subsection \<open>Statistics\<close>

lemma countDocuments_split:
  "countDocuments q coll + countDocuments (\<lambda>c. \<not> q c) coll = length coll"
  unfolding countDocuments_def by (rule sum_length_filter_compl)

lemma countDocuments_mono:
  assumes "\<And>c. p c \<Longrightarrow> q c"
  shows "countDocuments p coll \<le> countDocuments q coll"
proof (induction coll)
  case Nil
  show ?case by (simp add: countDocuments_def)
next
  case (Cons c cs)
  then show ?case using assms [of c] by (auto simp: countDocuments_def)
qed

text \<open>
  C8. On one store state and one evaluation time, the counts of the statistics endpoint
  satisfy used + unused = total and active \<le> unused, and active counts exactly the
  credentials that are active, not expired (expiry strictly after now) and not used.
\<close>

theorem stats_consistent:
  "stats_used (charity_codes_stats now coll) + stats_unused (charity_codes_stats now coll)
     = stats_total (charity_codes_stats now coll)
   \<and> stats_active (charity_codes_stats now coll) \<le> stats_unused (charity_codes_stats now coll)
   \<and> stats_total (charity_codes_stats now coll) = length coll
   \<and> stats_active (charity_codes_stats now coll)
       = length (filter (\<lambda>c. isActive c \<and> \<not> expiresAt c \<le> now \<and> \<not> isUsed c) coll)"
proof -
  have a: "countDocuments (\<lambda>c. isUsed c = True) coll + countDocuments (\<lambda>c. isUsed c = False) coll
             = length coll"
    using countDocuments_split [of isUsed coll] by simp
  have b: "countDocuments (\<lambda>c. isActive c = True \<and> expiresAt c > now \<and> isUsed c = False) coll
             \<le> countDocuments (\<lambda>c. isUsed c = False) coll"
    by (rule countDocuments_mono) simp
  have c: "(\<lambda>c. isActive c = True \<and> expiresAt c > now \<and> isUsed c = False)
             = (\<lambda>c. isActive c \<and> \<not> expiresAt c \<le> now \<and> \<not> isUsed c)"
    by (rule ext) auto
  show ?thesis
    using a b by (simp add: charity_codes_stats_def c) (simp add: countDocuments_def not_le)
qed

subsection \<open>Redeeming a code\<close>

lemma run_alone_Done: "run_alone clk req_user (Done r) s = (Done r, s)"
  by (simp add: run_alone_def)

lemma begin_redeem_granted:
  "canCreateCharity (charityAuthorization req_user) \<Longrightarrow> begin_redeem req_user c = Done AlreadyGranted"
  by (simp add: begin_redeem_def)

lemma find_code_inactive:
  assumes "c \<in> set coll" and "\<not> isActive c" and "distinct (map code coll)"
  shows "find (\<lambda>d. code d = code c \<and> isActive d = True) coll = None"
proof -
  have "d = c" if "d \<in> set coll" and "code d = code c" for d
    using assms(1,3) that by (auto simp: distinct_map dest: inj_onD)
  then show ?thesis
    using assms(2) by (auto simp: find_None_iff)
qed

text \<open>
  C6. For an identity that already holds a grant (canCreateCharity is set on the document
  the request carries), Redeem answers AlreadyGranted whatever code is presented, and the
  store, with every credential in it, is left as it was.
\<close>

theorem redeem_already_granted:
  assumes "canCreateCharity (charityAuthorization req_user)"
  shows "redeem clk req_user c s = (Done AlreadyGranted, s)"
  using assms by (simp add: redeem_def begin_redeem_granted run_alone_Done)

theorem redeem_already_granted_witness:
  "canCreateCharity (charityAuthorization ex_granted_user)
   \<and> redeem (ex_clock 10) ex_granted_user ''ABCD1234'' ex_db = (Done AlreadyGranted, ex_db)
   \<and> isValidForUse 10 ex_code"
proof -
  have h: "canCreateCharity (charityAuthorization ex_granted_user)"
    by (simp add: ex_granted_user_def)
  have v: "isValidForUse 10 ex_code"
    by (simp add: isValidForUse_def ex_code_def)
  show ?thesis
    using h v redeem_already_granted [OF h, of "ex_clock 10" "''ABCD1234''" ex_db] by simp
qed

text \<open>
  C2, as amended. The lookup only matches active credentials. When the credential that
  carries the presented code has been deactivated (codes are unique in the store), Redeem
  by an identity without a grant answers NotFound and leaves the store as it was.
\<close>

theorem redeem_deactivated_not_found:
  assumes "\<not> canCreateCharity (charityAuthorization req_user)"
    and "c \<in> set (codes s)" and "\<not> isActive c"
    and "distinct (map code (codes s))"
    and "toUpperCase x = code c"
  shows "redeem clk req_user x s = (Done NotFound, s)"
  using assms(1,5) find_code_inactive [OF assms(2,3,4)]
  by (simp add: redeem_def begin_redeem_def run_alone_def)

lemma resume_not_inactive:
  assumes "st \<noteq> Done Inactive"
  shows "fst (resume_verify clk u st s) \<noteq> Done Inactive"
proof (cases st)
  case (AwaitFindCode c)
  show ?thesis
  proof (cases "find (\<lambda>d. code d = c \<and> isActive d = True) (codes s)")
    case None
    with AwaitFindCode show ?thesis by simp
  next
    case (Some d)
    then have "isActive d" by (auto simp: find_Some_iff)
    with AwaitFindCode Some show ?thesis
      by (simp add: invalid_reason_def useCode_def)
  qed
next
  case (Done r)
  with assms show ?thesis by simp
qed (simp_all split: option.splits)

lemma redeem_never_inactive: "fst (redeem clk u x s) \<noteq> Done Inactive"
proof -
  have b: "begin_redeem u x \<noteq> Done Inactive"
    by (simp add: begin_redeem_def)
  have r: "fst (resume_verify clk u st t) \<noteq> Done Inactive" if "st \<noteq> Done Inactive" for st t
    using that by (rule resume_not_inactive)
  show ?thesis
    unfolding redeem_def run_alone_def
    by (simp add: split_beta Let_def) (intro r b)
qed


theorem redeem_deactivated_not_found_witness:
  "\<not> canCreateCharity (charityAuthorization (ex_user 1))
   \<and> ex_code\<lparr> isActive := False \<rparr> \<in> set (codes (snd (deactivate_code 7 ex_db)))
   \<and> \<not> isUsed (ex_code\<lparr> isActive := False \<rparr>)
   \<and> redeem (ex_clock 10) (ex_user 1) ''abcd1234'' (snd (deactivate_code 7 ex_db))
       = (Done NotFound, snd (deactivate_code 7 ex_db))"
proof -
  let ?s = "snd (deactivate_code 7 ex_db)"
  let ?c = "ex_code\<lparr> isActive := False \<rparr>"
  have h1: "\<not> canCreateCharity (charityAuthorization (ex_user 1))"
    by (simp add: ex_user_def)
  have cs: "codes ?s = [?c]"
    by (simp add: deactivate_code_def findCodeById_def save_code_active_def ex_db_def ex_code_def)
  have h2: "?c \<in> set (codes ?s)"
    by (simp add: cs)
  have h3: "\<not> isActive ?c"
    by simp
  have h4: "distinct (map code (codes ?s))"
    by (simp add: cs)
  have h5: "toUpperCase ''abcd1234'' = code ?c"
    by (simp add: toUpperCase_def toUpperChar_def ex_code_def)
  have u: "\<not> isUsed ?c"
    by (simp add: ex_code_def)
  show ?thesis
    using h1 h2 u redeem_deactivated_not_found [OF h1 h2 h3 h4 h5, of "ex_clock 10"] by simp
qed

text \<open>
  C2 as stated fails: an unused code is deactivated, and the redemption attempted next
  is answered NotFound, not Inactive.
\<close>

theorem redeem_deactivated_counterexample:
  "fst (deactivate_code 7 ex_db) = Deactivated
   \<and> map isActive (codes (snd (deactivate_code 7 ex_db))) = [False]
   \<and> map isUsed (codes (snd (deactivate_code 7 ex_db))) = [False]
   \<and> fst (redeem (ex_clock 10) (ex_user 1) ''ABCD1234'' (snd (deactivate_code 7 ex_db))) = Done NotFound
   \<and> fst (redeem (ex_clock 10) (ex_user 1) ''ABCD1234'' (snd (deactivate_code 7 ex_db))) \<noteq> Done Inactive"
  by code_simp

subsection \<open>Attaching the authorization\<close>

lemma updateOne_find:
  assumes "find q coll = Some d" and "q (f d)"
  shows "\<exists>coll'. updateOne q f coll = Some coll' \<and> find q coll' = Some (f d)"
  using assms by (induction coll) (auto split: if_splits)

lemma updateOne_find_other:
  assumes "updateOne q f coll = Some coll'" and "\<And>d. q d \<Longrightarrow> q' (f d) = q' d"
    and "\<And>d. q d \<Longrightarrow> \<not> q' d"
  shows "find q' coll' = find q' coll"
  using assms(1)
proof (induction coll arbitrary: coll')
  case Nil
  then show ?case by simp
next
  case (Cons d ds)
  then show ?case using assms(2,3) by (auto split: if_splits)
qed

lemma updateOne_map:
  assumes "updateOne q f coll = Some coll'" and "\<And>d. q d \<Longrightarrow> g (f d) = g d"
  shows "map g coll' = map g coll"
  using assms(1)
proof (induction coll arbitrary: coll')
  case Nil
  then show ?case by simp
next
  case (Cons d ds)
  then show ?case using assms(2) by (auto split: if_splits)
qed

lemma findUserById_id: "findUserById i coll = Some u \<Longrightarrow> u_id u = i"
  by (auto simp: findUserById_def find_Some_iff)

text \<open>
  C3, as amended. For an identity that already holds a grant the only guard is the
  pre-check of Redeem, which answers AlreadyGranted and changes nothing. The attach step
  itself checks nothing: for every stored identity it succeeds and replaces the stored
  authorization by the new credential reference and time, whatever was stored before.
\<close>

theorem attach_overwrites_grant:
  assumes "findUserById (u_id u) (users s) = Some stored"
  shows "(\<exists>coll. attach_authorization clk u cc s
                   = (Done (Verified (Some (t_authorized clk))), s\<lparr> users := coll \<rparr>)
              \<and> findUserById (u_id u) coll
                   = Some (stored\<lparr> charityAuthorization :=
                        \<lparr> auth_code = Some (cc_id cc),
                          authorizedAt = Some (t_authorized clk),
                          canCreateCharity = True \<rparr> \<rparr>))
         \<and> (canCreateCharity (charityAuthorization u) \<longrightarrow>
              redeem clk u x s = (Done AlreadyGranted, s))"
proof -
  let ?new = "\<lparr> auth_code = Some (cc_id cc), authorizedAt = Some (t_authorized clk),
                canCreateCharity = True \<rparr>"
  have i: "u_id stored = u_id u"
    using assms by (rule findUserById_id)
  have f: "find (\<lambda>d. u_id d = u_id u) (users s) = Some stored"
    using assms by (simp add: findUserById_def)
  obtain coll where c: "updateOne (\<lambda>d. u_id d = u_id u) (\<lambda>d. d\<lparr> charityAuthorization := ?new \<rparr>) (users s)
                          = Some coll"
    and c': "find (\<lambda>d. u_id d = u_id u) coll = Some (stored\<lparr> charityAuthorization := ?new \<rparr>)"
    using updateOne_find [OF f, of "\<lambda>d. d\<lparr> charityAuthorization := ?new \<rparr>"] i by auto
  have "attach_authorization clk u cc s
          = (Done (Verified (Some (t_authorized clk))), s\<lparr> users := coll \<rparr>)"
    using assms i c by (simp add: attach_authorization_def save_user_authorization_def)
  then show ?thesis
    using c' by (auto simp: findUserById_def redeem_def begin_redeem_granted run_alone_Done)
qed

theorem attach_overwrites_grant_witness:
  "findUserById (u_id ex_granted_user) (users ex_db) = Some ex_granted_user
   \<and> canCreateCharity (charityAuthorization ex_granted_user)
   \<and> fst (attach_authorization (ex_clock 10) ex_granted_user ex_code ex_db) = Done (Verified (Some 11))
   \<and> redeem (ex_clock 10) ex_granted_user ''ABCD1234'' ex_db = (Done AlreadyGranted, ex_db)"
proof -
  have h: "findUserById (u_id ex_granted_user) (users ex_db) = Some ex_granted_user"
    by (simp add: findUserById_def ex_db_def ex_granted_user_def ex_user_def)
  have g: "canCreateCharity (charityAuthorization ex_granted_user)"
    by (simp add: ex_granted_user_def)
  have t: "t_authorized (ex_clock 10) = 11"
    by (simp add: ex_clock_def)
  show ?thesis
    using h g t attach_overwrites_grant [OF h, of "ex_clock 10" ex_code "''ABCD1234''"] by auto
qed

text \<open>
  C3 as stated fails: the attach step run for an identity that holds a grant (credential
  5, granted at 1) is not rejected, and the stored grant becomes credential 7 at 11.
\<close>

theorem attach_second_grant_counterexample:
  "map_option charityAuthorization (findUserById 3 (users ex_db))
     = Some \<lparr> auth_code = Some 5, authorizedAt = Some 1, canCreateCharity = True \<rparr>
   \<and> fst (attach_authorization (ex_clock 10) ex_granted_user ex_code ex_db) = Done (Verified (Some 11))
   \<and> map_option charityAuthorization
        (findUserById 3 (users (snd (attach_authorization (ex_clock 10) ex_granted_user ex_code ex_db))))
     = Some \<lparr> auth_code = Some 7, authorizedAt = Some 11, canCreateCharity = True \<rparr>"
  by code_simp

subsection \<open>Two requests for one code\<close>

text \<open>Served one after the other, the second request is answered AlreadyUsed.\<close>

lemma redeem_one_after_the_other:
  "fst (redeem (ex_clock 10) (ex_user 1) ''ABCD1234'' ex_db) = Done (Verified (Some 11))
   \<and> fst (redeem (ex_clock 12) (ex_user 2) ''ABCD1234''
            (snd (redeem (ex_clock 10) (ex_user 1) ''ABCD1234'' ex_db))) = Done AlreadyUsed"
  by code_simp

text \<open>
  C1. The claim: when two identities redeem the same valid code concurrently, exactly one
  is answered with success, the other with AlreadyUsed, and the credential records the
  winner only. The code does not do this. Here two identities redeem the same valid code
  and both lookups take place before either save: both requests are answered with
  success, both identities hold the grant afterwards, and the credential records the
  identity whose save came last.
\<close>

theorem redeem_race_both_succeed:
  "map rq_state (fst (run_schedule [0, 1, 0, 1, 0, 0, 1, 1]
      [\<lparr> rq_clock = ex_clock 10, rq_user = ex_user 1, rq_state = begin_redeem (ex_user 1) ''ABCD1234'' \<rparr>,
       \<lparr> rq_clock = ex_clock 12, rq_user = ex_user 2, rq_state = begin_redeem (ex_user 2) ''ABCD1234'' \<rparr>]
      ex_db))
     = [Done (Verified (Some 11)), Done (Verified (Some 13))]
   \<and> map usedBy (codes (snd (run_schedule [0, 1, 0, 1, 0, 0, 1, 1]
      [\<lparr> rq_clock = ex_clock 10, rq_user = ex_user 1, rq_state = begin_redeem (ex_user 1) ''ABCD1234'' \<rparr>,
       \<lparr> rq_clock = ex_clock 12, rq_user = ex_user 2, rq_state = begin_redeem (ex_user 2) ''ABCD1234'' \<rparr>]
      ex_db)))
     = [Some (2, 12)]
   \<and> map (canCreateCharity \<circ> charityAuthorization)
        (users (snd (run_schedule [0, 1, 0, 1, 0, 0, 1, 1]
      [\<lparr> rq_clock = ex_clock 10, rq_user = ex_user 1, rq_state = begin_redeem (ex_user 1) ''ABCD1234'' \<rparr>,
       \<lparr> rq_clock = ex_clock 12, rq_user = ex_user 2, rq_state = begin_redeem (ex_user 2) ''ABCD1234'' \<rparr>]
      ex_db)))
     = [True, True, True, False]"
  by code_simp

subsection \<open>Batches of codes\<close>



lemma any_rejected_append [simp]:
  "any_rejected (ps @ [(d, st)]) = (any_rejected ps \<or> st = Rejected)"
  by (auto simp: any_rejected_def list_ex_iff)

lemma any_rejected_Nil [simp]: "\<not> any_rejected []"
  by (simp add: any_rejected_def)


lemma any_rejected_update_Rejected:
  "k < length ps \<Longrightarrow> any_rejected (ps[k := (d, Rejected)])"
  unfolding any_rejected_def list_ex_iff
  by (metis length_list_update nth_list_update_eq nth_mem snd_conv)

lemma any_rejected_update_Fulfilled:
  "any_rejected (ps[k := (d, Fulfilled)]) \<Longrightarrow> any_rejected ps"
  unfolding any_rejected_def list_ex_iff
  using set_update_subset_insert [of ps k "(d, Fulfilled)"] by auto


lemma await_all_fields [simp]:
  "bh_codes (await_all h) = bh_codes h" "bh_saves (await_all h) = bh_saves h"
  by (simp_all add: await_all_def)

lemma next_iteration_fields [simp]:
  "bh_codes (next_iteration cfg h) = bh_codes h" "bh_saves (next_iteration cfg h) = bh_saves h"
  by (simp_all add: next_iteration_def split: prod.splits)

lemma settled_fields [simp]:
  "bh_codes (settled cfg h) = bh_codes h" "bh_saves (settled cfg h) = bh_saves h"
  by (simp_all add: settled_def split: bulk_phase.splits)












text \<open>
  A save that is rejected while the loop still awaits a lookup: under a runtime that ends
  the process on an unhandled rejection no response is sent and the second save never
  starts; under one that only warns, the loop goes on, the second document is stored and
  \<open>Promise.all\<close> answers the 500.
\<close>

lemma bulk_create_unhandled_rejection:
  "bulk_create (ex_bulk_config True) ex_random ex_first_save_fails (codes ex_db) =
     (\<lparr> bh_codes = [''AAAAAAAA''], bh_random = [],
        bh_saves = [(ex_batch_doc 0, Rejected)],
        bh_phase = Terminated \<rparr>,
      codes ex_db @ [ex_other_code ''AAAAAAAA''])"
  by code_simp

lemma bulk_create_rejection_warned:
  "bulk_create (ex_bulk_config False) ex_random ex_first_save_fails (codes ex_db) =
     (\<lparr> bh_codes = ex_random, bh_random = [],
        bh_saves = [(ex_batch_doc 0, Rejected), (ex_batch_doc 1, Fulfilled)],
        bh_phase = Responded BulkFailed \<rparr>,
      codes ex_db @ [ex_other_code ''AAAAAAAA'', ex_batch_doc 1])"
  by code_simp

text \<open>
  A response is produced: when the generator returns distinct codes in their stored form
  that no stored document carries, and the request is served alone, the handler answers
  the 201 with the first \<open>count\<close> codes drawn, and the collection is extended by exactly
  their documents.
\<close>

lemma bulk_run_append:
  "bulk_run cfg (es @ es') st = bulk_run cfg es' (bulk_run cfg es st)"
  by (induction es arbitrary: st) simp_all

lemma distinct_nth_not_in_take:
  assumes "distinct xs" and "i < length xs"
  shows "xs ! i \<notin> set (take i xs)"
proof
  assume "xs ! i \<in> set (take i xs)"
  then obtain j where "j < i" "xs ! j = xs ! i"
    by (auto simp: in_set_conv_nth)
  with assms show False
    by (simp add: nth_eq_iff_index_eq)
qed

lemma map_nth_upt_take: "n \<le> length xs \<Longrightarrow> map ((!) xs) [0..<n] = take n xs"
  by (rule nth_equalityI) simp_all

lemma bulk_alone_completes:
  assumes d: "distinct random"
    and n: "count (bc_value cfg) \<le> length random"
    and canon: "\<forall>c \<in> set random. toUpperCase (trim c) = c"
    and fresh: "\<forall>c \<in> set random. \<forall>d \<in> set coll. code d \<noteq> c"
  shows "\<exists>h. bulk_create cfg random (alone_events (count (bc_value cfg))) coll =
           (h, coll @ map (\<lambda>j. new_charity_code (bc_new_id cfg j) (random ! j)
                               (bv_expiresAt (bc_value cfg))
                               (batch_description (bc_value cfg) j) (u_id (bc_user cfg)))
                        [0..<count (bc_value cfg)])
         \<and> bh_phase h = Responded (BulkCreated (take (count (bc_value cfg)) random))
         \<and> all_fulfilled (bh_saves h)"
proof -
  define m where "m = count (bc_value cfg)"
  define doc where "doc j = new_charity_code (bc_new_id cfg j) (random ! j)
                               (bv_expiresAt (bc_value cfg))
                               (batch_description (bc_value cfg) j) (u_id (bc_user cfg))" for j
  define S where "S i = \<lparr> bh_codes = take i random,
                          bh_random = drop (if i < m then Suc i else i) random,
                          bh_saves = map (\<lambda>j. (doc j, Fulfilled)) [0..<i],
                          bh_phase = (if i < m then AwaitFind (random ! i)
                                      else Responded (BulkCreated (take i random))) \<rparr>" for i
  define C where "C i = coll @ map doc [0..<i]" for i
  have m: "m \<le> length random"
    using n by (simp add: m_def)
  have code_doc: "code (doc j) = random ! j" if "j < length random" for j
    using canon that by (simp add: doc_def new_charity_code_def)
  have unused: "\<not> list_ex (\<lambda>d. code d = random ! i) (C i)" if "i < m" for i
  proof -
    have "code x \<noteq> random ! i" if "x \<in> set coll" for x
      using fresh \<open>i < m\<close> m that by auto
    moreover have "code (doc j) \<noteq> random ! i" if "j < i" for j
      using code_doc [of j] d \<open>i < m\<close> m that by (simp add: nth_eq_iff_index_eq)
    ultimately show ?thesis
      by (auto simp: list_ex_iff C_def)
  qed
  have all: "all_fulfilled (bh_saves (S i))" for i
    by (simp add: S_def all_fulfilled_def list_all_iff)
  have none: "\<not> any_rejected (bh_saves (S i))" for i
    by (simp add: S_def any_rejected_def list_ex_iff)
  have codes_S: "map (code \<circ> fst) (bh_saves (S i)) = take i random" if "i \<le> m" for i
  proof -
    have "map (code \<circ> fst) (bh_saves (S i)) = map (\<lambda>j. code (doc j)) [0..<i]"
      by (simp add: S_def comp_def)
    also have "\<dots> = map ((!) random) [0..<i]"
      using code_doc that m by simp
    also have "\<dots> = take i random"
      using that m by (simp add: map_nth_upt_take)
    finally show ?thesis .
  qed
  have step: "bulk_run cfg [FindReturns, SaveSettles i] (S i, C i) = (S (Suc i), C (Suc i))"
    if "i < m" for i
  proof -
    define h1 where "h1 = (S i)\<lparr> bh_codes := take (Suc i) random,
                                 bh_saves := bh_saves (S i) @ [(doc i, InFlight)] \<rparr>"
    define h2 where "h2 = next_iteration cfg h1"
    have i: "i < length random"
      using that m by simp
    have "find (\<lambda>d. code d = random ! i) (C i) = None"
      using unused [OF that] by (simp add: find_None_iff list_ex_iff)
    then have f: "bulk_step cfg FindReturns (S i, C i) = (h2, C i)"
      using that i by (simp add: S_def h1_def h2_def doc_def m_def take_Suc_conv_app_nth)
    have p2: "bh_phase h2 = (if Suc i < m then AwaitFind (random ! Suc i) else AwaitAll)"
      and r2: "bh_random h2 = drop (if Suc i < m then Suc (Suc i) else Suc i) random"
    proof -
      have "draw (take (Suc i) random) (drop (Suc i) random) =
              (AwaitFind (random ! Suc i), drop (Suc (Suc i)) random)" if "Suc i < m"
      proof -
        have l: "Suc i < length random"
          using that m by simp
        have "random ! Suc i \<notin> set (take (Suc i) random)"
          using d l by (rule distinct_nth_not_in_take)
        moreover have "drop (Suc i) random = random ! Suc i # drop (Suc (Suc i)) random"
          using l by (simp add: Cons_nth_drop_Suc)
        ultimately show ?thesis
          by simp
      qed
      moreover have "\<not> all_fulfilled (bh_saves h1)"
        by (simp add: h1_def all_fulfilled_def)
      moreover have "\<not> any_rejected (bh_saves h1)"
        using none [of i] by (simp add: h1_def)
      moreover have "length (bh_codes h1) = Suc i" "bh_random h1 = drop (Suc i) random"
        using i \<open>i < m\<close> by (simp_all add: h1_def S_def)
      moreover have "bh_codes h1 = take (Suc i) random"
        by (simp add: h1_def)
      ultimately show "bh_phase h2 = (if Suc i < m then AwaitFind (random ! Suc i) else AwaitAll)"
        and "bh_random h2 = drop (if Suc i < m then Suc (Suc i) else Suc i) random"
        by (simp_all add: h2_def next_iteration_def await_all_def m_def)
    qed
    have c2: "bh_codes h2 = take (Suc i) random"
      and s2: "bh_saves h2 = bh_saves (S i) @ [(doc i, InFlight)]"
      by (simp_all add: h2_def h1_def)
    have li: "length (bh_saves (S i)) = i"
      by (simp add: S_def)
    define h3 where "h3 = h2\<lparr> bh_saves := bh_saves (S (Suc i)) \<rparr>"
    have u: "(bh_saves h2)[i := (fst (bh_saves h2 ! i), Fulfilled)] = bh_saves (S (Suc i))"
      using li by (simp add: s2 S_def list_update_append nth_append)
    have "insert_code (doc i) (C i) = Some (C (Suc i))"
      using unused [OF that] code_doc [OF i] by (simp add: insert_code_def C_def)
    moreover have "fst (bh_saves h2 ! i) = doc i" "snd (bh_saves h2 ! i) = InFlight"
      "i < length (bh_saves h2)"
      using li by (simp_all add: s2 nth_append)
    ultimately have g: "bulk_step cfg (SaveSettles i) (h2, C i) = (settled cfg h3, C (Suc i))"
      using u by (simp add: h3_def)
    have "settled cfg h3 = S (Suc i)"
    proof (cases "Suc i < m")
      case True
      then have "settled cfg h3 = h3"
        using none [of "Suc i"] p2 by (simp add: settled_def h3_def)
      also have "h3 = S (Suc i)"
        using True p2 r2 c2 by (simp add: h3_def S_def)
      finally show ?thesis .
    next
      case False
      then have "settled cfg h3 = await_all h3"
        using p2 by (simp add: settled_def h3_def)
      also have "\<dots> = h3\<lparr> bh_phase := Responded (BulkCreated (take (Suc i) random)) \<rparr>"
        using none [of "Suc i"] all [of "Suc i"] codes_S [of "Suc i"] that
        by (simp add: await_all_def h3_def)
      also have "\<dots> = S (Suc i)"
        using False r2 c2 by (simp add: h3_def S_def)
      finally show ?thesis .
    qed
    with f g show ?thesis
      by simp
  qed
  have start: "bulk_begin cfg random = S 0"
  proof (cases "0 < m")
    case True
    then have "random = random ! 0 # drop (Suc 0) random"
      using m by (cases random) simp_all
    then have "draw [] random = (AwaitFind (random ! 0), drop (Suc 0) random)"
      by (metis draw.simps(2) empty_iff list.set(1))
    then show ?thesis
      using True by (simp add: bulk_begin_def next_iteration_def S_def m_def)
  next
    case False
    then show ?thesis
      by (simp add: bulk_begin_def next_iteration_def await_all_def S_def m_def
          any_rejected_def all_fulfilled_def)
  qed
  have run: "bulk_run cfg (alone_events i) (bulk_begin cfg random, coll) = (S i, C i)"
    if "i \<le> m" for i
    using that
  proof (induction i)
    case 0
    then show ?case
      by (simp add: start C_def)
  next
    case (Suc i)
    then show ?case
      using step [of i] by (simp add: bulk_run_append del: bulk_run.simps)
  qed
  have "bulk_create cfg random (alone_events m) coll = (S m, C m)"
    using run [of m] by (simp add: bulk_create_def)
  moreover have "bh_phase (S m) = Responded (BulkCreated (take m random))"
    by (simp add: S_def)
  ultimately show ?thesis
    using all [of m] unfolding m_def C_def doc_def by blast
qed

subsection \<open>Admin accounts\<close>

lemma updateOne_map_first:
  assumes "updateOne q f coll = Some coll'" and "find q coll = Some d" and "g (f d) = g d"
  shows "map g coll' = map g coll"
  using assms(1,2)
proof (induction coll arbitrary: coll')
  case Nil
  then show ?case by simp
next
  case (Cons x xs)
  then show ?case using assms(3) by (auto split: if_splits)
qed

lemma updateUserSchema_accountType:
  assumes "updateUserSchema body = Some v"
  shows "v_accountType v = None \<or> v_accountType v = Some Individual \<or> v_accountType v = Some Charity"
  using assms
  by (auto simp: updateUserSchema_def validate_accountType_def
      split: if_splits option.splits jsval.splits)

lemma update_user_admin_flags:
  "map (\<lambda>u. accountType u = Admin) (users (snd (update_user body i s)))
     = map (\<lambda>u. accountType u = Admin) (users s)"
proof (cases "updateUserSchema body")
  case None
  then show ?thesis by (simp add: update_user_def)
next
  case (Some v)
  note v = this
  show ?thesis
  proof (cases "findUserById i (users s)")
    case None
    with v show ?thesis by (simp add: update_user_def)
  next
    case (Some u)
    note u = this
    show ?thesis
    proof (cases "accountType u = Admin")
      case True
      with v u show ?thesis by (simp add: update_user_def)
    next
      case False
      show ?thesis
      proof (cases "save_user_fields v (assign_fields v u) (users s)")
        case None
        with v u False show ?thesis by (simp add: update_user_def)
      next
        case (Some coll)
        have f: "find (\<lambda>d. u_id d = u_id (assign_fields v u)) (users s) = Some u"
          using u findUserById_id [OF u] by (simp add: findUserById_def assign_fields_def)
        have "map (\<lambda>u. accountType u = Admin) coll = map (\<lambda>u. accountType u = Admin) (users s)"
          using Some [unfolded save_user_fields_def] f
        proof (rule updateOne_map_first)
          show "(accountType (u\<lparr> accountType := (case v_accountType v of None \<Rightarrow> accountType u
                                   | Some a \<Rightarrow> accountType (assign_fields v u)),
                   u_isActive := (case v_isActive v of None \<Rightarrow> u_isActive u
                                   | Some b \<Rightarrow> u_isActive (assign_fields v u)) \<rparr>) = Admin)
                = (accountType u = Admin)"
            using False updateUserSchema_accountType [OF v]
            by (auto simp: assign_fields_def)
        qed
        with v u False Some show ?thesis by (simp add: update_user_def)
      qed
    qed
  qed
qed

text \<open>
  C9, as amended. For every stored user whose accountType is admin, the delete route
  answers Forbidden, and the update route answers Forbidden when the body passes the
  schema and a validation error when it does not (the body is validated before the user
  is looked up); in each case the whole store, the account and the organizations it
  owns, is unchanged. No update request, on any store, changes which accounts are admin,
  and no validated body carries accountType admin.
\<close>

theorem admin_accounts_immutable:
  assumes "findUserById i (users s) = Some target" and "accountType target = Admin"
  shows "delete_user i s = (Forbidden, s)
       \<and> update_user body i s
           = (case updateUserSchema body of None \<Rightarrow> InvalidBody | Some v \<Rightarrow> Forbidden, s)
       \<and> map (\<lambda>u. accountType u = Admin) (users (snd (update_user body' j s')))
           = map (\<lambda>u. accountType u = Admin) (users s')
       \<and> (\<forall>v. updateUserSchema body' = Some v \<longrightarrow> v_accountType v \<noteq> Some Admin)"
proof -
  have "\<And>v. updateUserSchema body' = Some v \<Longrightarrow> v_accountType v \<noteq> Some Admin"
    using updateUserSchema_accountType by fastforce
  then show ?thesis
    using assms update_user_admin_flags [of body' j s']
    by (simp add: delete_user_def update_user_def split: option.splits)
qed

theorem admin_accounts_immutable_witness:
  "findUserById 9 (users ex_db) = Some ex_admin
   \<and> accountType ex_admin = Admin
   \<and> delete_user 9 ex_db = (Forbidden, ex_db)
   \<and> update_user [(''isActive'', JBool False)] 9 ex_db = (Forbidden, ex_db)
   \<and> updateUserSchema [(''accountType'', JStr ''charity'')]
        = Some \<lparr> v_accountType = Some Charity, v_isActive = None \<rparr>
   \<and> map accountType (users (snd (update_user [(''accountType'', JStr ''charity'')] 1 ex_db)))
        = [Charity, Individual, Individual, Admin]"
proof -
  have h1: "findUserById 9 (users ex_db) = Some ex_admin"
    by code_simp
  have h2: "accountType ex_admin = Admin"
    by (simp add: ex_admin_def)
  have v1: "updateUserSchema [(''isActive'', JBool False)]
              = Some \<lparr> v_accountType = None, v_isActive = Some False \<rparr>"
    by code_simp
  have v2: "updateUserSchema [(''accountType'', JStr ''charity'')]
              = Some \<lparr> v_accountType = Some Charity, v_isActive = None \<rparr>"
    by code_simp
  have m: "map accountType (users (snd (update_user [(''accountType'', JStr ''charity'')] 1 ex_db)))
             = [Charity, Individual, Individual, Admin]"
    by code_simp
  show ?thesis
    using h1 h2 v1 v2 m
      admin_accounts_immutable [OF h1 h2, of "[(''isActive'', JBool False)]"
        "[(''accountType'', JStr ''charity'')]" 1 ex_db]
    by simp
qed

text \<open>
  C9 as stated fails: an update request whose body the schema rejects, aimed at an admin
  account, is answered with the validation error, not with Forbidden.
\<close>

theorem admin_update_counterexample:
  "accountType ex_admin = Admin
   \<and> findUserById 9 (users ex_db) = Some ex_admin
   \<and> update_user [(''accountType'', JStr ''admin'')] 9 ex_db = (InvalidBody, ex_db)
   \<and> fst (update_user [(''accountType'', JStr ''admin'')] 9 ex_db) \<noteq> Forbidden"
  by code_simp

subsection \<open>The field codec\<close>

lemma decode_ascii:
  "b < 0x80 \<Longrightarrow> utf8_code_points (b # rest) = b # utf8_code_points rest"
  by simp

lemma decode_two:
  assumes "0xC2 \<le> b" and "b \<le> 0xDF" and "continuation b1"
  shows "utf8_code_points (b # b1 # rest) = ((b - 0xC0) * 0x40 + (b1 - 0x80)) # utf8_code_points rest"
  using assms by simp

lemma decode_three:
  assumes "0xE0 \<le> b" and "b \<le> 0xEF" and "second_lower b \<le> b1" and "b1 \<le> second_upper b"
    and "continuation b2"
  shows "utf8_code_points (b # b1 # b2 # rest)
           = ((b - 0xE0) * 0x1000 + (b1 - 0x80) * 0x40 + (b2 - 0x80)) # utf8_code_points rest"
  using assms by simp

lemma decode_four:
  assumes "0xF0 \<le> b" and "b \<le> 0xF4" and "second_lower b \<le> b1" and "b1 \<le> second_upper b"
    and "continuation b2" and "continuation b3"
  shows "utf8_code_points (b # b1 # b2 # b3 # rest)
           = ((b - 0xF0) * 0x40000 + (b1 - 0x80) * 0x1000 + (b2 - 0x80) * 0x40 + (b3 - 0x80))
             # utf8_code_points rest"
  using assms by simp


lemma decode_encode_cp:
  assumes "scalar_value c"
  shows "utf8_code_points (utf8_of_code_point c @ rest) = c # utf8_code_points rest"
proof -
  define l where "l = c mod 0x40"
  define d where "d = c div 0x40"
  define m where "m = d mod 0x40"
  define e where "e = d div 0x40"
  define n where "n = e mod 0x40"
  define h where "h = e div 0x40"
  have l: "l < 0x40" and m: "m < 0x40" and n: "n < 0x40"
    by (simp_all add: l_def m_def n_def)
  have c: "c = d * 0x40 + l"
    by (simp add: d_def l_def)
  have d: "d = e * 0x40 + m"
    by (simp add: e_def m_def)
  have e: "e = h * 0x40 + n"
    by (simp add: h_def n_def)
  have e': "c div 0x1000 = e"
    using div_mult2_eq [of c "0x40" "0x40"] by (simp add: e_def d_def)
  have h': "c div 0x40000 = h"
    using div_mult2_eq [of c "0x1000" "0x40"] e' by (simp add: h_def)
  have lt: "c < 0x110000" and ns: "\<not> (0xD800 \<le> c \<and> c \<le> 0xDFFF)"
    using assms by (simp_all add: scalar_value_def)
  consider "c < 0x80" | "0x80 \<le> c" "c < 0x800" | "0x800 \<le> c" "c < 0x10000" | "0x10000 \<le> c"
    by linarith
  then show ?thesis
  proof cases
    case 1
    then show ?thesis by (simp add: utf8_of_code_point_def)
  next
    case 2
    have enc: "utf8_of_code_point c = [0xC0 + d, 0x80 + l]"
      using 2 by (simp add: utf8_of_code_point_def d_def l_def)
    have a: "0xC2 \<le> 0xC0 + d" "0xC0 + d \<le> 0xDF"
      using 2 c l by linarith+
    have b: "continuation (0x80 + l)"
      using l by (simp add: continuation_def)
    have v: "(0xC0 + d - 0xC0) * 0x40 + (0x80 + l - 0x80) = c"
      using c by simp
    show ?thesis
      unfolding enc using decode_two [OF a b, of rest] v by (simp del: utf8_code_points.simps)
  next
    case 3
    have enc: "utf8_of_code_point c = [0xE0 + e, 0x80 + m, 0x80 + l]"
      using 3 e' by (simp add: utf8_of_code_point_def d_def l_def m_def)
    have a: "0xE0 \<le> 0xE0 + e" "0xE0 + e \<le> 0xEF"
      using 3 c d l m by linarith+
    have lo: "second_lower (0xE0 + e) \<le> 0x80 + m"
      using 3 c d l m by (simp add: second_lower_def)
    have up: "0x80 + m \<le> second_upper (0xE0 + e)"
      using 3 ns c d l m by (auto simp: second_upper_def)
    have b: "continuation (0x80 + l)"
      using l by (simp add: continuation_def)
    have v: "(0xE0 + e - 0xE0) * 0x1000 + (0x80 + m - 0x80) * 0x40 + (0x80 + l - 0x80) = c"
      using c d by simp
    show ?thesis
      unfolding enc using decode_three [OF a lo up b, of rest] v by (simp del: utf8_code_points.simps)
  next
    case 4
    have enc: "utf8_of_code_point c = [0xF0 + h, 0x80 + n, 0x80 + m, 0x80 + l]"
      using 4 e' h' by (simp add: utf8_of_code_point_def d_def l_def m_def n_def)
    have a: "0xF0 \<le> 0xF0 + h" "0xF0 + h \<le> 0xF4"
      using 4 lt c d e l m n by linarith+
    have lo: "second_lower (0xF0 + h) \<le> 0x80 + n"
      using 4 c d e l m n by (simp add: second_lower_def)
    have up: "0x80 + n \<le> second_upper (0xF0 + h)"
      using 4 lt c d e l m n by (auto simp: second_upper_def)
    have b2: "continuation (0x80 + m)"
      using m by (simp add: continuation_def)
    have b3: "continuation (0x80 + l)"
      using l by (simp add: continuation_def)
    have v: "(0xF0 + h - 0xF0) * 0x40000 + (0x80 + n - 0x80) * 0x1000 + (0x80 + m - 0x80) * 0x40
               + (0x80 + l - 0x80) = c"
      using c d e by simp
    show ?thesis
      unfolding enc using decode_four [OF a lo up b2 b3, of rest] v
      by (simp del: utf8_code_points.simps)
  qed
qed

lemma decode_encode_cps:
  "list_all scalar_value cs \<Longrightarrow> utf8_code_points (concat (map utf8_of_code_point cs)) = cs"
  by (induction cs) (simp_all add: decode_encode_cp del: utf8_code_points.simps(2))


lemma surrogate_unat:
  "high_surrogate u \<longleftrightarrow> 0xD800 \<le> unat u \<and> unat u \<le> 0xDBFF"
  "low_surrogate u \<longleftrightarrow> 0xDC00 \<le> unat u \<and> unat u \<le> 0xDFFF"
  by (simp_all add: high_surrogate_def low_surrogate_def word_le_nat_alt)

lemma unat_16_bound: "unat (u :: 16 word) < 0x10000"
  using unsigned_less [of u, where ?'a = nat] by simp

lemma code_points_scalar: "list_all scalar_value (code_points s)"
proof (induction s rule: code_points.induct)
  case 1
  show ?case by simp
next
  case (2 u)
  show ?case using unat_16_bound [of u] by (auto simp: scalar_value_def surrogate_unat)
next
  case (3 u l rest)
  then show ?case
    using unat_16_bound [of u] unat_16_bound [of l]
    by (auto simp: scalar_value_def surrogate_unat)
qed

lemma units_of_code_points:
  "well_formed s \<Longrightarrow> concat (map units_of_code_point (code_points s)) = s"
proof (induction s rule: code_points.induct)
  case 1
  show ?case by simp
next
  case (2 u)
  then show ?case using unat_16_bound [of u] by (simp add: units_of_code_point_def)
next
  case (3 u l rest)
  show ?case
  proof (cases "high_surrogate u")
    case True
    with 3 have lo: "low_surrogate l" and wf: "well_formed rest"
      by simp_all
    define a where "a = unat u - 0xD800"
    define b where "b = unat l - 0xDC00"
    have a: "unat u = 0xD800 + a" and b: "unat l = 0xDC00 + b" and b': "b < 0x400"
      using True lo by (auto simp: surrogate_unat a_def b_def)
    have dv: "(a * 0x400 + b) div 0x400 = a" and md: "(a * 0x400 + b) mod 0x400 = b"
      using b' by simp_all
    have "units_of_code_point (0x10000 + a * 0x400 + b) = [u, l]"
      using dv md a b by (simp add: units_of_code_point_def add.assoc) (metis of_nat_unat of_nat_numeral of_nat_add ucast_id)
    then show ?thesis
      using True lo wf 3 by (simp add: a_def b_def)
  next
    case False
    with 3 show ?thesis
      using unat_16_bound [of u] by (simp add: units_of_code_point_def)
  qed
qed

lemma scalar_bytes:
  assumes "scalar_value c"
  shows "list_all (\<lambda>b. b < 256) (utf8_of_code_point c)"
proof -
  have "c div 0x40000 < 5"
    using assms by (simp add: scalar_value_def less_mult_imp_div_less)
  moreover have "c < 0x10000 \<Longrightarrow> c div 0x1000 < 16"
    by (simp add: less_mult_imp_div_less)
  moreover have "c < 0x800 \<Longrightarrow> c div 0x40 < 32"
    by (simp add: less_mult_imp_div_less)
  moreover have "c mod 0x40 < 0x40" "c div 0x40 mod 0x40 < 0x40" "c div 0x1000 mod 0x40 < 0x40"
    by simp_all
  ultimately show ?thesis
    unfolding utf8_of_code_point_def by (auto simp del: mod_less_divisor)
qed

lemma unat_of_nat_8: "n < 256 \<Longrightarrow> unat (of_nat n :: 8 word) = n"
  by (simp add: unat_of_nat)

lemma unat_of_nat_bytes:
  "list_all (\<lambda>b. b < 256) ns \<Longrightarrow> map unat (map of_nat ns :: bytes) = ns"
  by (induction ns) (simp_all add: unat_of_nat_8)

lemma utf8_bytes_small:
  "list_all scalar_value cs \<Longrightarrow> list_all (\<lambda>b. b < 256) (concat (map utf8_of_code_point cs))"
  by (induction cs) (simp_all add: scalar_bytes)

lemma utf8_decode_encode: "utf8_decode (utf8_encode s) = toWellFormed s"
proof -
  let ?ns = "concat (map utf8_of_code_point (code_points s))"
  have "map unat (map of_nat ?ns :: bytes) = ?ns"
    by (intro unat_of_nat_bytes utf8_bytes_small code_points_scalar)
  moreover have "utf8_code_points ?ns = code_points s"
    by (intro decode_encode_cps code_points_scalar)
  ultimately show ?thesis
    unfolding utf8_decode_def utf8_encode_def toWellFormed_def by (simp only:)
qed

lemma toWellFormed_id: "well_formed s \<Longrightarrow> toWellFormed s = s"
  unfolding toWellFormed_def by (rule units_of_code_points)

lemma utf8_of_code_point_nonempty: "utf8_of_code_point c \<noteq> []"
  by (simp add: utf8_of_code_point_def)

lemma code_points_nonempty: "s \<noteq> [] \<Longrightarrow> code_points s \<noteq> []"
  by (induction s rule: code_points.induct) simp_all

lemma utf8_encode_nonempty: "s \<noteq> [] \<Longrightarrow> utf8_encode s \<noteq> []"
  using code_points_nonempty [of s]
  by (cases "code_points s") (simp_all add: utf8_encode_def utf8_of_code_point_nonempty)

lemma unat_of_nat_16: "n < 0x10000 \<Longrightarrow> unat (of_nat n :: 16 word) = n"
  by (simp add: unat_of_nat)

lemma hex_value_digit: "n < 16 \<Longrightarrow> hex_value (hex_digit n) = Some n"
  by (simp add: hex_value_def hex_digit_def unat_of_nat_16 Let_def)

lemma hex_pairs_encode: "hex_pairs (hex_encode bs @ rest) = bs @ hex_pairs rest"
proof (induction bs)
  case Nil
  show ?case by (simp add: hex_encode_def)
next
  case (Cons b bs)
  have d: "unat b div 16 < 16"
    using unsigned_less [of b, where ?'a = nat] by (simp add: less_mult_imp_div_less)
  have m: "unat b mod 16 < 16"
    by simp
  have "hex_encode (b # bs) @ rest
          = hex_digit (unat b div 16) # hex_digit (unat b mod 16) # (hex_encode bs @ rest)"
    by (simp add: hex_encode_def)
  then show ?case
    using Cons hex_value_digit [OF d] hex_value_digit [OF m] by simp
qed

lemma hex_encode_length: "length (hex_encode bs) = 2 * length bs"
  by (induction bs) (simp_all add: hex_encode_def)

lemma hex_input_encode: "hex_input (hex_encode bs) = Some bs"
  using hex_pairs_encode [of bs "[]"] by (simp add: hex_input_def hex_encode_length)

lemma hex_encode_empty: "hex_encode bs = [] \<longleftrightarrow> bs = []"
  by (cases bs) (simp_all add: hex_encode_def)

lemma well_formed_plain:
  "\<not> high_surrogate u \<Longrightarrow> \<not> low_surrogate u \<Longrightarrow> well_formed (u # r) = well_formed r"
  by (cases r) simp_all

lemma well_formed_pair:
  "high_surrogate h \<Longrightarrow> low_surrogate l \<Longrightarrow> well_formed (h # l # r) = well_formed r"
  by simp

lemma well_formed_units:
  "list_all scalar_value cs \<Longrightarrow> well_formed (concat (map units_of_code_point cs))"
proof (induction cs)
  case Nil
  show ?case by simp
next
  case (Cons c cs)
  then have sc: "scalar_value c" and ih: "well_formed (concat (map units_of_code_point cs))"
    by simp_all
  show ?case
  proof (cases "c < 0x10000")
    case True
    then have "\<not> high_surrogate (of_nat c)" "\<not> low_surrogate (of_nat c)"
      using sc by (auto simp: surrogate_unat unat_of_nat_16 scalar_value_def)
    moreover have "units_of_code_point c = [of_nat c]"
      using True by (simp add: units_of_code_point_def)
    ultimately show ?thesis
      using ih by (simp add: well_formed_plain)
  next
    case False
    define x where "x = c - 0x10000"
    have x: "x < 0x100000"
      using sc False by (simp add: x_def scalar_value_def)
    have d: "x div 0x400 < 0x400"
      using x by (simp add: less_mult_imp_div_less)
    have m: "x mod 0x400 < 0x400"
      by simp
    define hv where "hv = 0xD800 + x div 0x400"
    define lv where "lv = 0xDC00 + x mod 0x400"
    have hb: "0xD800 \<le> hv" "hv \<le> 0xDBFF" and lb: "0xDC00 \<le> lv" "lv \<le> 0xDFFF"
      using d m by (simp_all add: hv_def lv_def del: mod_less_divisor)
    have h: "high_surrogate (of_nat hv)"
      using hb unat_of_nat_16 [of hv] by (simp add: surrogate_unat)
    have l: "low_surrogate (of_nat lv)"
      using lb unat_of_nat_16 [of lv] by (simp add: surrogate_unat)
    have "units_of_code_point c = [of_nat hv, of_nat lv]"
      using False by (simp add: units_of_code_point_def x_def hv_def lv_def)
    then show ?thesis
      using ih well_formed_pair [OF h l] by simp
  qed
qed

lemma toWellFormed_iff: "toWellFormed s = s \<longleftrightarrow> well_formed s"
proof
  assume "toWellFormed s = s"
  moreover have "well_formed (toWellFormed s)"
    unfolding toWellFormed_def by (intro well_formed_units code_points_scalar)
  ultimately show "well_formed s" by simp
next
  assume "well_formed s"
  then show "toWellFormed s = s" by (rule toWellFormed_id)
qed

lemma key_of_decrypt_keys:
  "key_of (map_option (decrypt_keys lib key) obj) k = map_option (decrypt_if_set lib key) (key_of obj k)"
proof (cases obj)
  case None
  then show ?thesis by (simp add: key_of_def)
next
  case (Some o')
  have "map_of (decrypt_keys lib key o') k = map_option (decrypt_if_set lib key) (map_of o' k)"
    unfolding decrypt_keys_def by (induction o') auto
  with Some show ?thesis by (simp add: key_of_def)
qed

lemma key_of_decrypt_customFields:
  "key_of (map_option (decrypt_customFields lib key) obj) k = map_option (simpleDecrypt lib key) (key_of obj k)"
proof (cases obj)
  case None
  then show ?thesis by (simp add: key_of_def)
next
  case (Some o')
  have "map_of (decrypt_customFields lib key o') k = map_option (simpleDecrypt lib key) (map_of o' k)"
    unfolding decrypt_customFields_def by (induction o') auto
  with Some show ?thesis by (simp add: key_of_def)
qed

lemma item_of_map: "item_of (map f xs) i = map_option f (item_of xs i)"
  by (simp add: item_of_def)

lemma decoded_field_guarded: "\<not> unguarded p \<Longrightarrow> decoded_field lib key p = decrypt_if_set lib key"
  by (rule ext) (simp add: decoded_field_def decrypt_if_set_def)

lemma decoded_field_unguarded: "unguarded p \<Longrightarrow> decoded_field lib key p = simpleDecrypt lib key"
  by (rule ext) (simp add: decoded_field_def)

lemma getDecryptedData_field:
  "field_at (getDecryptedData lib key ch) p = map_option (decoded_field lib key p) (field_at ch p)"
proof (cases p)
  case (BasicInfo k)
  then show ?thesis
    by (simp add: getDecryptedData_def key_of_decrypt_keys decoded_field_guarded)
next
  case (RegisteredAddress k)
  then show ?thesis
    by (cases "legalInfo ch")
      (simp_all add: getDecryptedData_def decrypt_legalInfo_def key_of_decrypt_keys decoded_field_guarded)
next
  case (PrimaryContact k)
  then show ?thesis
    by (cases "contactInfo ch")
      (simp_all add: getDecryptedData_def decrypt_contactInfo_def key_of_decrypt_keys decoded_field_guarded)
next
  case (MailingAddress k)
  then show ?thesis
    by (cases "contactInfo ch")
      (simp_all add: getDecryptedData_def decrypt_contactInfo_def key_of_decrypt_keys decoded_field_guarded)
next
  case (FundingSource i)
  then show ?thesis
    by (cases "financialInfo ch")
      (simp_all add: getDecryptedData_def decrypt_financialInfo_def item_of_map decoded_field_unguarded)
next
  case (BankingInfo k)
  then show ?thesis
    by (cases "financialInfo ch")
      (simp_all add: getDecryptedData_def decrypt_financialInfo_def key_of_decrypt_keys decoded_field_guarded)
next
  case (CustomField k)
  then show ?thesis
    by (simp add: getDecryptedData_def key_of_decrypt_customFields decoded_field_unguarded)
qed (simp_all add: getDecryptedData_def decrypt_legalInfo_def decrypt_financialInfo_def
      decrypt_program_def item_of_map decoded_field_guarded option.map_comp comp_def)

lemmas codec_eval =
  simpleEncrypt_def simpleDecrypt_def update_final_def input_bytes_def output_string_def
  utf8_encode_def utf8_decode_def high_surrogate_def low_surrogate_def utf8_of_code_point_def
  units_of_code_point_def second_lower_def second_upper_def continuation_def
  hex_input_def hex_encode_def hex_digit_def hex_value_def js_def ex_crypto_def

text \<open>
  C5, as amended. Let the decipher of the crypto module invert its cipher for the
  algorithm and key that the code passes to both, on ciphertexts that are never empty.
  Then for every non-empty string, whatever characters it contains, encoding succeeds
  and decoding the blob gives the string with every unpaired surrogate replaced by
  U+FFFD: the string itself exactly when it is well formed.
\<close>

theorem simple_roundtrip:
  assumes "\<And>bs. bs \<noteq> [] \<Longrightarrow>
             \<exists>ct. createCipher lib ''aes192'' key bs = Some ct \<and> ct \<noteq> []
                  \<and> createDecipher lib ''aes192'' key ct = Some bs"
    and "s \<noteq> []"
  shows "\<exists>blob. simpleEncrypt lib key (Some s) = Returns (Some blob)
              \<and> simpleDecrypt lib key (Some blob) = Some (toWellFormed s)
              \<and> (well_formed s \<longrightarrow> simpleDecrypt lib key (Some blob) = Some s)
              \<and> (\<not> well_formed s \<longrightarrow> simpleDecrypt lib key (Some blob) \<noteq> Some s)"
proof -
  obtain ct where c: "createCipher lib ''aes192'' key (utf8_encode s) = Some ct" and n: "ct \<noteq> []"
    and d: "createDecipher lib ''aes192'' key ct = Some (utf8_encode s)"
    using assms(1) [OF utf8_encode_nonempty [OF assms(2)]] by blast
  have e: "simpleEncrypt lib key (Some s) = Returns (Some (hex_encode ct))"
    using assms(2) c
    by (simp add: simpleEncrypt_def update_final_def input_bytes_def output_string_def)
  have r: "simpleDecrypt lib key (Some (hex_encode ct)) = Some (toWellFormed s)"
    using n d
    by (simp add: simpleDecrypt_def update_final_def input_bytes_def output_string_def
        hex_input_encode hex_encode_empty utf8_decode_encode)
  show ?thesis
    using e r toWellFormed_iff [of s] by auto
qed

lemma ex_crypto_inverse:
  "bs \<noteq> [] \<Longrightarrow>
     \<exists>ct. createCipher ex_crypto ''aes192'' key bs = Some ct \<and> ct \<noteq> []
          \<and> createDecipher ex_crypto ''aes192'' key ct = Some bs"
  by (simp add: ex_crypto_def)

theorem simple_roundtrip_witness:
  "[0x7C, 0xE9, 0x20AC, 0xD83D, 0xDE00] \<noteq> ([] :: jsstring)
   \<and> well_formed [0x7C, 0xE9, 0x20AC, 0xD83D, 0xDE00]
   \<and> simpleEncrypt ex_crypto ''k'' (Some [0x7C, 0xE9, 0x20AC, 0xD83D, 0xDE00])
       = Returns (Some (js ''80989ff0ac82e2a9c37c01''))
   \<and> simpleDecrypt ex_crypto ''k'' (Some (js ''80989ff0ac82e2a9c37c01''))
       = Some [0x7C, 0xE9, 0x20AC, 0xD83D, 0xDE00]"
proof -
  let ?s = "[0x7C, 0xE9, 0x20AC, 0xD83D, 0xDE00] :: jsstring"
  have h: "?s \<noteq> []"
    by simp
  have w: "well_formed ?s"
    by (simp add: high_surrogate_def low_surrogate_def)
  have e: "simpleEncrypt ex_crypto ''k'' (Some ?s) = Returns (Some (js ''80989ff0ac82e2a9c37c01''))"
    by (simp add: codec_eval)
  show ?thesis
    using h w e simple_roundtrip [where lib = ex_crypto and key = "''k''", OF ex_crypto_inverse h]
    by auto
qed

text \<open>Whatever the cipher, a lone surrogate and U+FFFD are encoded to the same blob.\<close>

lemma lone_surrogate_collides:
  "simpleEncrypt lib key (Some [0xD800]) = simpleEncrypt lib key (Some [0xFFFD])"
proof -
  have "utf8_encode [0xD800] = utf8_encode [0xFFFD]"
    by (simp add: codec_eval)
  then show ?thesis
    by (simp add: simpleEncrypt_def update_final_def input_bytes_def)
qed

text \<open>
  C5 as stated fails: the one-unit string U+D800 is not empty, and decoding its blob
  gives U+FFFD.
\<close>

theorem simple_roundtrip_counterexample:
  "utf8_encode [0xD800] = [0xEF, 0xBF, 0xBD]
   \<and> utf8_decode [0xEF, 0xBF, 0xBD] = [0xFFFD]
   \<and> simpleEncrypt ex_crypto ''k'' (Some [0xD800]) = Returns (Some (js ''bdbfef01''))
   \<and> simpleDecrypt ex_crypto ''k'' (Some (js ''bdbfef01'')) = Some [0xFFFD]
   \<and> simpleDecrypt ex_crypto ''k'' (Some (js ''bdbfef01'')) \<noteq> Some [0xD800]"
  by (simp add: codec_eval)

lemma simpleDecrypt_failure:
  assumes "hex_input e = None \<or> (\<exists>bs. hex_input e = Some bs \<and> createDecipher lib ''aes192'' key bs = None)"
  shows "simpleDecrypt lib key (Some e) = None"
  using assms by (auto simp: simpleDecrypt_def update_final_def input_bytes_def)

text \<open>Whatever the cipher, a blob followed by characters that are not hexadecimal is decoded
  like the blob itself.\<close>

lemma trailing_garbage_accepted:
  "simpleDecrypt lib key (Some (hex_encode ct @ js ''zz''))
     = map_option utf8_decode (createDecipher lib ''aes192'' key ct)"
proof -
  have "hex_pairs (js ''zz'') = []"
    by (simp add: js_def hex_value_def)
  then have "hex_input (hex_encode ct @ js ''zz'') = Some ct"
    by (simp add: hex_input_def hex_pairs_encode hex_encode_length js_def)
  moreover have "hex_encode ct @ js ''zz'' \<noteq> []"
    by (simp add: js_def)
  ultimately show ?thesis
    by (simp add: simpleDecrypt_def update_final_def input_bytes_def output_string_def
        split: option.splits)
qed

text \<open>
  C7, as amended. simpleDecrypt never throws. A blob of odd length, or one that the
  decipher rejects, decodes to null. When such a blob is stored in any encrypted field
  of a charity, getDecryptedData still returns the record: that field is null, every
  encrypted field holds what simpleDecrypt gives for its own stored value, and the
  other parts of the record are unchanged.
\<close>

theorem decode_failure_degrades_field:
  assumes "field_at ch p = Some (Some e)" and "e \<noteq> []"
    and "hex_input e = None
         \<or> (\<exists>bs. hex_input e = Some bs \<and> createDecipher lib ''aes192'' key bs = None)"
  shows "simpleDecrypt lib key (Some e) = None
       \<and> field_at (getDecryptedData lib key ch) p = Some None
       \<and> (\<forall>q. field_at (getDecryptedData lib key ch) q
                 = map_option (decoded_field lib key q) (field_at ch q))
       \<and> ch_id (getDecryptedData lib key ch) = ch_id ch
       \<and> owner (getDecryptedData lib key ch) = owner ch
       \<and> status (getDecryptedData lib key ch) = status ch
       \<and> isPublic (getDecryptedData lib key ch) = isPublic ch"
proof -
  have r: "simpleDecrypt lib key (Some e) = None"
    using assms(3) by (rule simpleDecrypt_failure)
  have "decoded_field lib key p (Some e) = None"
    using assms(2) r by (simp add: decoded_field_def truthy_def)
  then have "field_at (getDecryptedData lib key ch) p = Some None"
    using assms(1) by (simp add: getDecryptedData_field)
  then show ?thesis
    using r by (simp add: getDecryptedData_field) (simp add: getDecryptedData_def)
qed

text \<open>
  The theorem on two fields of one record: the description holds a blob of odd length,
  the tax id a blob that the decipher rejects under the key. Both are null in the record
  returned, and the other fields are decoded.
\<close>

theorem decode_failure_degrades_field_witness:
  "field_at ex_charity (BasicInfo ''description'') = Some (Some (js ''6101z''))
   \<and> hex_input (js ''6101z'') = None
   \<and> simpleDecrypt ex_crypto ''k'' (Some (js ''6101z'')) = None
   \<and> field_at (getDecryptedData ex_crypto ''k'' ex_charity) (BasicInfo ''description'') = Some None
   \<and> field_at (getDecryptedData ex_crypto ''k'' ex_charity) (BasicInfo ''name'') = Some (Some (js ''ental''))
   \<and> field_at (getDecryptedData ex_crypto ''k'' ex_charity) RegistrationNumber = Some (Some (js ''1''))
   \<and> field_at (getDecryptedData ex_crypto ''k'' ex_charity) (FundingSource 0) = Some (Some (js ''a''))
   \<and> field_at (getDecryptedData ex_crypto ''k'' ex_charity) (FundingSource 1) = Some None
   \<and> field_at (getDecryptedData ex_crypto ''k'' ex_charity) (CustomField ''k'') = Some (Some (js ''k''))
   \<and> field_at ex_charity TaxId = Some (Some (js ''00''))
   \<and> hex_input (js ''00'') = Some [0]
   \<and> createDecipher ex_crypto ''aes192'' ''k'' [0] = None
   \<and> simpleDecrypt ex_crypto ''k'' (Some (js ''00'')) = None
   \<and> field_at (getDecryptedData ex_crypto ''k'' ex_charity) TaxId = Some None"
proof -
  have h1: "field_at ex_charity (BasicInfo ''description'') = Some (Some (js ''6101z''))"
    by (simp add: ex_charity_def key_of_def)
  have h2: "js ''6101z'' \<noteq> []"
    by (simp add: js_def)
  have h3: "hex_input (js ''6101z'') = None"
    by (simp add: hex_input_def js_def)
  have g1: "field_at ex_charity TaxId = Some (Some (js ''00''))"
    by (simp add: ex_charity_def)
  have g2: "js ''00'' \<noteq> []"
    by (simp add: js_def)
  have g3: "hex_input (js ''00'') = Some [0]"
    by (simp add: hex_input_def hex_value_def js_def)
  have g4: "createDecipher ex_crypto ''aes192'' ''k'' [0] = None"
    by (simp add: ex_crypto_def)
  have g5: "\<exists>bs. hex_input (js ''00'') = Some bs \<and> createDecipher ex_crypto ''aes192'' ''k'' bs = None"
    using g3 g4 by simp
  have d1: "map_option (decoded_field ex_crypto ''k'' (BasicInfo ''name''))
              (field_at ex_charity (BasicInfo ''name'')) = Some (Some (js ''ental''))"
    by (simp add: ex_charity_def key_of_def decoded_field_def truthy_def codec_eval)
  have d2: "map_option (decoded_field ex_crypto ''k'' RegistrationNumber)
              (field_at ex_charity RegistrationNumber) = Some (Some (js ''1''))"
    by (simp add: ex_charity_def decoded_field_def truthy_def codec_eval)
  have d4: "map_option (decoded_field ex_crypto ''k'' (FundingSource 0))
              (field_at ex_charity (FundingSource 0)) = Some (Some (js ''a''))"
    by (simp add: ex_charity_def item_of_def decoded_field_def codec_eval)
  have d5: "map_option (decoded_field ex_crypto ''k'' (FundingSource 1))
              (field_at ex_charity (FundingSource 1)) = Some None"
    by (simp add: ex_charity_def item_of_def decoded_field_def codec_eval)
  have d6: "map_option (decoded_field ex_crypto ''k'' (CustomField ''k''))
              (field_at ex_charity (CustomField ''k'')) = Some (Some (js ''k''))"
    by (simp add: ex_charity_def key_of_def decoded_field_def codec_eval)
  note t = decode_failure_degrades_field [where lib = ex_crypto and key = "''k''", OF h1 h2 disjI1 [OF h3]]
  note u = decode_failure_degrades_field [where lib = ex_crypto and key = "''k''", OF g1 g2 disjI2 [OF g5]]
  have a: "simpleDecrypt ex_crypto ''k'' (Some (js ''6101z'')) = None"
    using t by blast
  have b: "field_at (getDecryptedData ex_crypto ''k'' ex_charity) (BasicInfo ''description'') = Some None"
    using t by blast
  have every: "field_at (getDecryptedData ex_crypto ''k'' ex_charity) q
                 = map_option (decoded_field ex_crypto ''k'' q) (field_at ex_charity q)" for q
    using t by blast
  have c: "simpleDecrypt ex_crypto ''k'' (Some (js ''00'')) = None"
    using u by blast
  have e: "field_at (getDecryptedData ex_crypto ''k'' ex_charity) TaxId = Some None"
    using u by blast
  show ?thesis
    by (intro conjI h1 h3 a b g1 g3 g4 c e) (simp_all only: every d1 d2 d4 d5 d6)
qed

text \<open>
  C7 as stated fails: the blob 6101zz is malformed (it is no output of simpleEncrypt
  and is not hexadecimal), and it decodes to the text of the blob 6101 without any
  error.
\<close>

theorem decode_malformed_counterexample:
  "simpleEncrypt ex_crypto ''k'' (Some (js ''a'')) = Returns (Some (js ''6101''))
   \<and> hex_input (js ''6101zz'') = hex_input (js ''6101'')
   \<and> simpleDecrypt ex_crypto ''k'' (Some (js ''6101zz'')) = Some (js ''a'')
   \<and> simpleDecrypt ex_crypto ''k'' (Some (js ''6101zz'')) \<noteq> None"
  by (simp add: codec_eval)

subsection \<open>Serialisation of a user\<close>

lemma js_delete_keys: "fst ` set (js_delete k obj) = fst ` set obj - {k}"
  unfolding js_delete_def by auto

lemma js_delete_map_of: "k' \<noteq> k \<Longrightarrow> map_of (js_delete k obj) k' = map_of obj k'"
  unfolding js_delete_def by (induction obj) auto

text \<open>
  C10. Whatever the user document holds, the object returned by toJSON has no property
  named password, refreshTokens or verificationToken; the same holds for the three
  deletions applied to any object.
\<close>

theorem toJSON_hides_secrets:
  "''password'' \<notin> fst ` set (toJSON u)
   \<and> ''refreshTokens'' \<notin> fst ` set (toJSON u)
   \<and> ''verificationToken'' \<notin> fst ` set (toJSON u)
   \<and> ''password'' \<notin> fst ` set (strip_sensitive obj)
   \<and> ''refreshTokens'' \<notin> fst ` set (strip_sensitive obj)
   \<and> ''verificationToken'' \<notin> fst ` set (strip_sensitive obj)"
  unfolding toJSON_def strip_sensitive_def by (simp add: js_delete_keys)

text \<open>The other properties are kept: on the example user, whose document holds all three.\<close>

lemma toJSON_example:
  "map fst (toObject (ex_user 1))
     = [''_id'', ''email'', ''password'', ''accountType'', ''charityAuthorization'', ''profile'',
        ''refreshTokens'', ''isActive'', ''emailVerified'', ''verificationToken'', ''createdAt'',
        ''updatedAt'']
   \<and> map fst (toJSON (ex_user 1))
     = [''_id'', ''email'', ''accountType'', ''charityAuthorization'', ''profile'', ''isActive'',
        ''emailVerified'', ''createdAt'', ''updatedAt'']"
  by code_simp

end
